theory Spec2Isabelle
  imports Complex_Main "HOL-Library.AList" "HOL-Library.Char_ord" "HOL-Library.List_Lexorder"
    "HOL-Library.Log_Nat"
begin

section \<open>The greeter: time-based greeting, translation cache and statistics\<close>

text \<open>
  The model follows \<^verbatim>\<open>greeter.go\<close> and \<^verbatim>\<open>server.go\<close>. A Go \<^verbatim>\<open>string\<close> is a
  sequence of bytes and is modelled as \<^typ>\<open>string\<close>, whose characters are bytes, so
  \<^const>\<open>length\<close> is Go's \<^verbatim>\<open>len\<close>. Go's \<^verbatim>\<open>int\<close> is modelled as \<^typ>\<open>int\<close>: the
  counters of this program only grow by one or by the length of a string held in
  memory, and no property below depends on their wrapping at \<open>2^63\<close>. The
  program is modelled sequentially; the two mutexes are not part of the model.
\<close>

subsection \<open>float64\<close>

text \<open>
  \<^verbatim>\<open>Stats.CostEstimate\<close> is a \<^verbatim>\<open>float64\<close>. A finite binary64 value is modelled by
  the rational it denotes (the sign of zero is not represented). \<open>round64\<close> is
  rounding to nearest, ties to even, with 53 bits of precision, the subnormal
  quantum \<open>2^-1074\<close> and overflow to infinity.
\<close>

datatype float64 = Fin rat | PosInf | NegInf | NaN

definition floor_log2 :: "rat \<Rightarrow> int" where
  "floor_log2 a =
     (let (n, d) = quotient_of a; k = bitlen n - bitlen d
      in if 2 powi k \<le> a then k else k - 1)"

definition round_half_even :: "rat \<Rightarrow> int" where
  "round_half_even r =
     (let f = \<lfloor>r\<rfloor>; d = r - of_int f
      in if d < 1 / 2 then f else if 1 / 2 < d then f + 1 else if even f then f else f + 1)"

definition round64 :: "rat \<Rightarrow> float64" where
  "round64 x =
     (if x = 0 then Fin 0
      else let a = \<bar>x\<bar>;
               q = max (floor_log2 a - 52) (- 1074);
               y = of_int (round_half_even (a / 2 powi q)) * 2 powi q
           in if 2 powi 1024 \<le> y then (if x < 0 then NegInf else PosInf)
              else Fin (if x < 0 then - y else y))"

fun negative64 :: "float64 \<Rightarrow> bool" where
  "negative64 (Fin a) = (a < 0)"
| "negative64 NegInf = True"
| "negative64 PosInf = False"
| "negative64 NaN = False"

fun fadd64 :: "float64 \<Rightarrow> float64 \<Rightarrow> float64" where
  "fadd64 (Fin a) (Fin b) = round64 (a + b)"
| "fadd64 NaN y = NaN"
| "fadd64 x NaN = NaN"
| "fadd64 PosInf NegInf = NaN"
| "fadd64 NegInf PosInf = NaN"
| "fadd64 PosInf y = PosInf"
| "fadd64 NegInf y = NegInf"
| "fadd64 (Fin a) y = y"

definition fmul64 :: "float64 \<Rightarrow> float64 \<Rightarrow> float64" where
  "fmul64 x y =
     (case (x, y) of
        (Fin a, Fin b) \<Rightarrow> round64 (a * b)
      | _ \<Rightarrow> if x = NaN \<or> y = NaN \<or> x = Fin 0 \<or> y = Fin 0 then NaN
             else if negative64 x \<noteq> negative64 y then NegInf else PosInf)"

text \<open>The fused multiply-add \<open>x * y + z\<close>, rounded once.\<close>

fun fma64 :: "float64 \<Rightarrow> float64 \<Rightarrow> float64 \<Rightarrow> float64" where
  "fma64 (Fin a) (Fin b) (Fin c) = round64 (a * b + c)"
| "fma64 (Fin a) (Fin b) z = z"
| "fma64 x y z = fadd64 (fmul64 x y) z"

text \<open>The conversion \<^verbatim>\<open>float64(n)\<close> of an \<^verbatim>\<open>int\<close>.\<close>

definition float64_of_int :: "int \<Rightarrow> float64" where
  "float64_of_int n = round64 (of_int n)"

text \<open>The constant \<^verbatim>\<open>0.00002\<close> (dollars per character), converted to \<^verbatim>\<open>float64\<close>.\<close>

definition unitCost :: float64 where
  "unitCost = round64 (2 / 100000)"

subsection \<open>UTF-8 (package unicode/utf8)\<close>

definition RuneError :: nat where
  "RuneError = 0xFFFD"

text \<open>
  \<^verbatim>\<open>utf8.DecodeRuneInString\<close>: the rune at the head of the string and its width in
  bytes; \<open>(RuneError, 1)\<close> for a byte that starts no well-formed sequence. The
  second byte's accepted range depends on the first (no overlong forms, no
  surrogates, nothing above \<open>U+10FFFF\<close>).
\<close>

definition continuation :: "char \<Rightarrow> bool" where
  "continuation c = (0x80 \<le> (of_char c :: nat) \<and> (of_char c :: nat) \<le> 0xBF)"

fun DecodeRuneInString :: "string \<Rightarrow> nat \<times> nat" where
  "DecodeRuneInString [] = (RuneError, 0)"
| "DecodeRuneInString (c0 # s) =
     (let b0 = (of_char c0 :: nat) in
      if b0 < 0x80 then (b0, 1)
      else if 0xC2 \<le> b0 \<and> b0 \<le> 0xDF then
        (case s of
           c1 # _ \<Rightarrow>
             if continuation c1 then ((b0 mod 32) * 64 + of_char c1 mod 64, 2)
             else (RuneError, 1)
         | _ \<Rightarrow> (RuneError, 1))
      else if 0xE0 \<le> b0 \<and> b0 \<le> 0xEF then
        (case s of
           c1 # c2 # _ \<Rightarrow>
             if (if b0 = 0xE0 then 0xA0 else 0x80) \<le> (of_char c1 :: nat)
                \<and> (of_char c1 :: nat) \<le> (if b0 = 0xED then 0x9F else 0xBF)
                \<and> continuation c2
             then ((b0 mod 16) * 4096 + (of_char c1 mod 64) * 64 + of_char c2 mod 64, 3)
             else (RuneError, 1)
         | _ \<Rightarrow> (RuneError, 1))
      else if 0xF0 \<le> b0 \<and> b0 \<le> 0xF4 then
        (case s of
           c1 # c2 # c3 # _ \<Rightarrow>
             if (if b0 = 0xF0 then 0x90 else 0x80) \<le> (of_char c1 :: nat)
                \<and> (of_char c1 :: nat) \<le> (if b0 = 0xF4 then 0x8F else 0xBF)
                \<and> continuation c2 \<and> continuation c3
             then ((b0 mod 8) * 262144 + (of_char c1 mod 64) * 4096
                   + (of_char c2 mod 64) * 64 + of_char c3 mod 64, 4)
             else (RuneError, 1)
         | _ \<Rightarrow> (RuneError, 1))
      else (RuneError, 1))"

text \<open>\<^verbatim>\<open>utf8.AppendRune\<close>: the UTF-8 encoding of a rune; \<open>U+FFFD\<close> for a surrogate
  or a value above \<open>U+10FFFF\<close>.\<close>

definition AppendRune :: "nat \<Rightarrow> string" where
  "AppendRune r =
     (if r \<le> 0x7F then [char_of r]
      else if r \<le> 0x7FF then [char_of (0xC0 + r div 64), char_of (0x80 + r mod 64)]
      else if 0x10FFFF < r \<or> (0xD800 \<le> r \<and> r \<le> 0xDFFF) then
        [char_of (0xEF :: nat), char_of (0xBF :: nat), char_of (0xBD :: nat)]
      else if r \<le> 0xFFFF then
        [char_of (0xE0 + r div 4096), char_of (0x80 + (r div 64) mod 64), char_of (0x80 + r mod 64)]
      else
        [char_of (0xF0 + r div 262144), char_of (0x80 + (r div 4096) mod 64),
         char_of (0x80 + (r div 64) mod 64), char_of (0x80 + r mod 64)])"

text \<open>\<^verbatim>\<open>utf8.RuneCountInString\<close>: the number of runes (characters) of a string. The
  width at a non-empty string is at least one, so dropping \<open>width - 1\<close> bytes of
  the tail is dropping \<open>width\<close> bytes of the string.\<close>

fun RuneCountInString :: "string \<Rightarrow> nat" where
  "RuneCountInString [] = 0"
| "RuneCountInString (c # s) =
     Suc (RuneCountInString (drop (snd (DecodeRuneInString (c # s)) - 1) s))"


subsection \<open>Encoding the cache as JSON (package encoding/json)\<close>

text \<open>
  A Go map is an association list with distinct keys, or \<open>None\<close> for the
  \<^verbatim>\<open>nil\<close> map: reading a \<^verbatim>\<open>nil\<close> map finds nothing, assigning to one panics.
  \<^verbatim>\<open>map[string]map[string]string\<close> is \<open>translation_map\<close>.
\<close>

type_synonym 'v gomap = "(string \<times> 'v) list option"

type_synonym translation_map = "(string gomap) gomap"

definition map_index :: "'v gomap \<Rightarrow> string \<Rightarrow> 'v option" where
  "map_index m k = (case m of None \<Rightarrow> None | Some al \<Rightarrow> map_of al k)"

definition hex :: "nat \<Rightarrow> char" where
  "hex n = ''0123456789abcdef'' ! n"

text \<open>
  \<^verbatim>\<open>appendString\<close> with \<^verbatim>\<open>escapeHTML\<close> set, as \<^verbatim>\<open>json.Marshal\<close> calls it:
  the bytes of \<^verbatim>\<open>htmlSafeSet\<close> are copied, the other ASCII bytes are escaped, a
  byte that starts no well-formed UTF-8 sequence becomes the escape of \<open>U+FFFD\<close>, and
  \<open>U+2028\<close> and \<open>U+2029\<close> are escaped.
\<close>

definition htmlSafe :: "nat \<Rightarrow> bool" where
  "htmlSafe b = (0x20 \<le> b \<and> b < 0x80 \<and> b \<noteq> 0x22 \<and> b \<noteq> 0x5C \<and> b \<noteq> 0x3C \<and> b \<noteq> 0x3E \<and> b \<noteq> 0x26)"

definition escapeByte :: "nat \<Rightarrow> string" where
  "escapeByte b =
     (if b = 0x5C \<or> b = 0x22 then [CHR 0x5C, char_of b]
      else if b = 0x08 then [CHR 0x5C, CHR ''b'']
      else if b = 0x0C then [CHR 0x5C, CHR ''f'']
      else if b = 0x0A then [CHR 0x5C, CHR ''n'']
      else if b = 0x0D then [CHR 0x5C, CHR ''r'']
      else if b = 0x09 then [CHR 0x5C, CHR ''t'']
      else [CHR 0x5C, CHR ''u'', CHR ''0'', CHR ''0'', hex (b div 16), hex (b mod 16)])"

fun appendStringBody :: "string \<Rightarrow> string" where
  "appendStringBody [] = []"
| "appendStringBody (c # s) =
     (let b = (of_char c :: nat) in
      if b < 0x80 then (if htmlSafe b then [c] else escapeByte b) @ appendStringBody s
      else
        let (r, size) = DecodeRuneInString (c # s) in
        if r = RuneError \<and> size = 1 then
          [CHR 0x5C, CHR ''u'', CHR ''f'', CHR ''f'', CHR ''f'', CHR ''d''] @ appendStringBody s
        else if r = 0x2028 \<or> r = 0x2029 then
          [CHR 0x5C, CHR ''u'', CHR ''2'', CHR ''0'', CHR ''2'', hex (r mod 16)]
            @ appendStringBody (drop (size - 1) s)
        else c # take (size - 1) s @ appendStringBody (drop (size - 1) s))"

definition appendString :: "string \<Rightarrow> string" where
  "appendString s = [CHR 0x22] @ appendStringBody s @ [CHR 0x22]"

text \<open>
  \<^verbatim>\<open>json.MarshalIndent(v, "", "  ")\<close> at the type of the cache: \<^verbatim>\<open>null\<close> for a
  \<^verbatim>\<open>nil\<close> map, \<^verbatim>\<open>{}\<close> for an empty one, otherwise the members in the order of
  their keys (\<^verbatim>\<open>strings.Compare\<close>, the order of bytes), one per line, indented by
  two spaces per level, with \<^verbatim>\<open>": "\<close> after a key. Encoding a value of this type
  cannot fail.
\<close>

definition newline :: "nat \<Rightarrow> string" where
  "newline depth = CHR 0x0A # replicate (2 * depth) CHR '' ''"

fun members :: "nat \<Rightarrow> ('v \<Rightarrow> string) \<Rightarrow> (string \<times> 'v) list \<Rightarrow> string" where
  "members depth enc [] = []"
| "members depth enc [(k, v)] = appendString k @ '': '' @ enc v"
| "members depth enc ((k, v) # kv # kvs) =
     appendString k @ '': '' @ enc v @ '','' @ newline depth @ members depth enc (kv # kvs)"

definition encodeMap :: "nat \<Rightarrow> ('v \<Rightarrow> string) \<Rightarrow> 'v gomap \<Rightarrow> string" where
  "encodeMap depth enc m =
     (case m of
        None \<Rightarrow> ''null''
      | Some [] \<Rightarrow> ''{}''
      | Some al \<Rightarrow>
          ''{'' @ newline (Suc depth) @ members (Suc depth) enc (sort_key fst al)
            @ newline depth @ ''}'')"

definition MarshalIndent :: "translation_map \<Rightarrow> string" where
  "MarshalIndent m = encodeMap 0 (encodeMap 1 appendString) m"

subsection \<open>Decoding JSON into the cache (package encoding/json)\<close>

datatype json_error = SyntaxError | UnmarshalTypeError string

text \<open>\<^verbatim>\<open>utf8.ValidString\<close>.\<close>

fun ValidString :: "string \<Rightarrow> bool" where
  "ValidString [] = True"
| "ValidString (c # s) =
     (let (r, size) = DecodeRuneInString (c # s)
      in \<not> (r = RuneError \<and> size = 1) \<and> ValidString (drop (size - 1) s))"

text \<open>
  The scanner and \<^verbatim>\<open>unquote\<close>, in one pass over a string literal after its
  opening quote: the decoded string and what follows the closing quote, or
  \<open>None\<close> where the scanner reports a syntax error (a control character, an
  unknown escape, an unfinished literal). An escaped surrogate pair is one
  rune; a lone surrogate and each byte that starts no well-formed UTF-8
  sequence become \<open>U+FFFD\<close>.
\<close>

definition hexval :: "char \<Rightarrow> nat option" where
  "hexval c =
     (let b = (of_char c :: nat) in
      if 0x30 \<le> b \<and> b \<le> 0x39 then Some (b - 0x30)
      else if 0x61 \<le> b \<and> b \<le> 0x66 then Some (b - 0x61 + 10)
      else if 0x41 \<le> b \<and> b \<le> 0x46 then Some (b - 0x41 + 10)
      else None)"

text \<open>\<^verbatim>\<open>getu4\<close>: the value of a \<^verbatim>\<open>\uXXXX\<close> at the head of a string.\<close>

fun getu4 :: "string \<Rightarrow> nat option" where
  "getu4 (b # u # h1 # h2 # h3 # h4 # s) =
     (if b = CHR 0x5C \<and> u = CHR ''u'' then
        (case (hexval h1, hexval h2, hexval h3, hexval h4) of
           (Some x1, Some x2, Some x3, Some x4) \<Rightarrow> Some (x1 * 4096 + x2 * 256 + x3 * 16 + x4)
         | _ \<Rightarrow> None)
      else None)"
| "getu4 s = None"

definition unescape :: "char \<Rightarrow> char option" where
  "unescape e =
     (if e = CHR 0x22 \<or> e = CHR 0x5C \<or> e = CHR ''/'' then Some e
      else if e = CHR ''b'' then Some (CHR 0x08)
      else if e = CHR ''f'' then Some (CHR 0x0C)
      else if e = CHR ''n'' then Some (CHR 0x0A)
      else if e = CHR ''r'' then Some (CHR 0x0D)
      else if e = CHR ''t'' then Some (CHR 0x09)
      else None)"

definition prepend :: "string \<Rightarrow> (string \<times> string) option \<Rightarrow> (string \<times> string) option" where
  "prepend xs r = map_option (\<lambda>(s, rest). (xs @ s, rest)) r"

definition string_item :: "char \<Rightarrow> string \<Rightarrow> (string \<times> string) option" where
  "string_item c cs =
     (if c = CHR 0x5C then
        (case cs of
           [] \<Rightarrow> None
         | e # cs' \<Rightarrow>
             if e = CHR ''u'' then
               (case getu4 (c # cs) of
                  None \<Rightarrow> None
                | Some rr \<Rightarrow>
                    if 0xD800 \<le> rr \<and> rr < 0xE000 then
                      (case getu4 (drop 4 cs') of
                         None \<Rightarrow> Some (AppendRune RuneError, drop 4 cs')
                       | Some rr1 \<Rightarrow>
                           if rr < 0xDC00 \<and> 0xDC00 \<le> rr1 \<and> rr1 < 0xE000 then
                             Some (AppendRune ((rr - 0xD800) * 1024 + (rr1 - 0xDC00) + 0x10000),
                                   drop 10 cs')
                           else Some (AppendRune RuneError, drop 4 cs'))
                    else Some (AppendRune rr, drop 4 cs'))
             else
               (case unescape e of
                  None \<Rightarrow> None
                | Some b \<Rightarrow> Some ([b], cs')))
      else if (of_char c :: nat) < 0x20 then None
      else if (of_char c :: nat) < 0x80 then Some ([c], cs)
      else
        Some (AppendRune (fst (DecodeRuneInString (c # cs))),
              drop (snd (DecodeRuneInString (c # cs)) - 1) cs))"

lemma string_item_length:
  assumes "string_item c cs = Some (out, t)"
  shows "length t \<le> length cs"
  using assms
  by (auto simp: string_item_def split: if_splits list.splits option.splits)

function scan_string :: "string \<Rightarrow> (string \<times> string) option" where
  "scan_string [] = None"
| "scan_string (c # cs) =
     (if c = CHR 0x22 then Some ([], cs)
      else case string_item c cs of
             None \<Rightarrow> None
           | Some (out, t) \<Rightarrow> prepend out (scan_string t))"
  by pat_completeness auto
termination
  by (relation "measure length") (auto dest: string_item_length)

text \<open>A number literal at the head of a string: what follows it.\<close>

definition digit :: "char \<Rightarrow> bool" where
  "digit c = (0x30 \<le> (of_char c :: nat) \<and> (of_char c :: nat) \<le> 0x39)"

definition scan_exponent :: "string \<Rightarrow> string option" where
  "scan_exponent s =
     (case s of
        [] \<Rightarrow> Some s
      | e # u \<Rightarrow>
          if e = CHR ''e'' \<or> e = CHR ''E'' then
            (case (case u of [] \<Rightarrow> u | sg # v \<Rightarrow> if sg = CHR ''+'' \<or> sg = CHR ''-'' then v else u) of
               [] \<Rightarrow> None
             | d # v \<Rightarrow> if digit d then Some (dropWhile digit v) else None)
          else Some s)"

definition scan_fraction :: "string \<Rightarrow> string option" where
  "scan_fraction s =
     (case s of
        [] \<Rightarrow> Some s
      | p # u \<Rightarrow>
          if p = CHR ''.'' then
            (case u of
               [] \<Rightarrow> None
             | d # v \<Rightarrow> if digit d then scan_exponent (dropWhile digit v) else None)
          else scan_exponent s)"

definition scan_number :: "string \<Rightarrow> string option" where
  "scan_number s =
     (case (case s of [] \<Rightarrow> s | m # t \<Rightarrow> if m = CHR ''-'' then t else s) of
        [] \<Rightarrow> None
      | d # t \<Rightarrow>
          if d = CHR ''0'' then scan_fraction t
          else if digit d then scan_fraction (dropWhile digit t)
          else None)"

datatype token =
  LBrace | RBrace | LBracket | RBracket | Colon | Comma
  | TString string | TNumber | TTrue | TFalse | TNull

definition isSpace :: "char \<Rightarrow> bool" where
  "isSpace c = (c = CHR '' '' \<or> c = CHR 0x09 \<or> c = CHR 0x0D \<or> c = CHR 0x0A)"

lemma prepend_rest:
  assumes "prepend xs r = Some (x, rest)"
  shows "\<exists>y. r = Some (y, rest)"
  using assms by (cases r) (auto simp: prepend_def)

lemma scan_string_rest:
  "scan_string s = Some (x, rest) \<Longrightarrow> length rest < length s"
proof (induction s arbitrary: x rule: scan_string.induct)
  case 1
  then show ?case by simp
next
  case (2 c cs)
  show ?case
  proof (cases "c = CHR 0x22")
    case True
    then show ?thesis using "2.prems" by simp
  next
    case False
    then obtain out t where it: "string_item c cs = Some (out, t)"
      using "2.prems" by (auto split: option.splits)
    then obtain y where "scan_string t = Some (y, rest)"
      using "2.prems" False by (auto dest: prepend_rest)
    then have "length rest < length t" using "2.IH"[OF False it refl] by simp
    then show ?thesis using string_item_length[OF it] by simp
  qed
qed


lemma dropWhile_length: "length (dropWhile P xs) \<le> length xs"
  by (induction xs) auto

lemma scan_exponent_rest:
  assumes "scan_exponent s = Some rest"
  shows "length rest \<le> length s"
  using assms dropWhile_length[of digit]
  by (auto simp: scan_exponent_def le_Suc_eq split: list.splits if_splits)

lemma scan_fraction_rest:
  assumes "scan_fraction s = Some rest"
  shows "length rest \<le> length s"
proof (cases s)
  case Nil
  then show ?thesis using assms by (simp add: scan_fraction_def)
next
  case (Cons p u)
  show ?thesis
  proof (cases "p = CHR ''.''")
    case True
    then obtain d v where u: "u = d # v" and e: "scan_exponent (dropWhile digit v) = Some rest"
      using assms Cons by (auto simp: scan_fraction_def split: list.splits if_splits)
    have "length rest \<le> length (dropWhile digit v)" using e by (rule scan_exponent_rest)
    then show ?thesis using dropWhile_length[of digit v] Cons u by simp
  next
    case False
    then have "scan_exponent s = Some rest" using assms Cons by (simp add: scan_fraction_def)
    then show ?thesis by (rule scan_exponent_rest)
  qed
qed

lemma scan_number_rest:
  assumes "scan_number s = Some rest"
  shows "length rest < length s"
proof -
  define s1 where "s1 = (case s of [] \<Rightarrow> s | m # t \<Rightarrow> if m = CHR ''-'' then t else s)"
  have l: "length s1 \<le> length s" by (auto simp: s1_def split: list.splits)
  obtain d t where s1: "s1 = d # t"
    and r: "(d = CHR ''0'' \<and> scan_fraction t = Some rest)
            \<or> scan_fraction (dropWhile digit t) = Some rest"
    using assms unfolding scan_number_def s1_def[symmetric]
    by (auto split: list.splits if_splits)
  from r have "length rest \<le> length t"
    using scan_fraction_rest[of t rest] scan_fraction_rest[of "dropWhile digit t" rest]
      dropWhile_length[of digit t]
    by auto
  then show ?thesis using l s1 by simp
qed

text \<open>The tokens of a text, or \<open>None\<close> at a byte that begins no token.\<close>

definition cons_token :: "token \<Rightarrow> token list option \<Rightarrow> token list option" where
  "cons_token t r = map_option (Cons t) r"

text \<open>The token that begins with the byte \<open>c\<close> (none for white space) and
  what follows it.\<close>

definition next_token :: "char \<Rightarrow> string \<Rightarrow> (token option \<times> string) option" where
  "next_token c cs =
     (if isSpace c then Some (None, cs)
      else if c = CHR ''{'' then Some (Some LBrace, cs)
      else if c = CHR ''}'' then Some (Some RBrace, cs)
      else if c = CHR ''['' then Some (Some LBracket, cs)
      else if c = CHR '']'' then Some (Some RBracket, cs)
      else if c = CHR '':'' then Some (Some Colon, cs)
      else if c = CHR '','' then Some (Some Comma, cs)
      else if c = CHR 0x22 then
        (case scan_string cs of
           None \<Rightarrow> None
         | Some (s, rest) \<Rightarrow> Some (Some (TString s), rest))
      else if c = CHR ''-'' \<or> digit c then
        (case scan_number (c # cs) of
           None \<Rightarrow> None
         | Some rest \<Rightarrow> Some (Some TNumber, rest))
      else if c = CHR ''t'' \<and> take 3 cs = ''rue'' then Some (Some TTrue, drop 3 cs)
      else if c = CHR ''f'' \<and> take 4 cs = ''alse'' then Some (Some TFalse, drop 4 cs)
      else if c = CHR ''n'' \<and> take 3 cs = ''ull'' then Some (Some TNull, drop 3 cs)
      else None)"

lemma next_token_rest:
  assumes "next_token c cs = Some (t, rest)"
  shows "length rest \<le> length cs"
proof -
  have "length rest \<le> length cs" if "scan_string cs = Some (x, rest)" for x
    using scan_string_rest[OF that] by simp
  moreover have "length rest \<le> length cs" if "scan_number (c # cs) = Some rest"
    using scan_number_rest[OF that] by simp
  ultimately show ?thesis
    using assms unfolding next_token_def
    by (auto split: if_splits option.splits)
qed

function lex :: "string \<Rightarrow> token list option" where
  "lex [] = Some []"
| "lex (c # cs) =
     (case next_token c cs of
        None \<Rightarrow> None
      | Some (None, rest) \<Rightarrow> lex rest
      | Some (Some t, rest) \<Rightarrow> cons_token t (lex rest))"
  by pat_completeness auto
termination
  by (relation "measure length") (auto dest!: next_token_rest)

text \<open>
  The values of JSON, and the parser: a machine over the tokens with the stack
  of the open arrays and objects (at most 10000 deep, as the scanner allows).
  A number is kept without its digits: no number is ever stored in the cache.
\<close>

datatype json =
  JNull | JBool bool | JNumber | JString string
  | JArray "json list" | JObject "(string \<times> json) list"

datatype frame =
  FArray "json list" | FObject "(string \<times> json) list" | FKey "(string \<times> json) list" string

datatype pstate =
  PValue | PValueOrEnd | PKeyOrEnd | PKey | PColon | PAfter | PDone json

definition maxNestingDepth :: nat where
  "maxNestingDepth = 10000"

text \<open>A finished value goes to the innermost open array or object.\<close>

fun finish :: "json \<Rightarrow> frame list \<Rightarrow> (pstate \<times> frame list) option" where
  "finish v [] = Some (PDone v, [])"
| "finish v (FArray acc # st) = Some (PAfter, FArray (v # acc) # st)"
| "finish v (FKey acc k # st) = Some (PAfter, FObject ((k, v) # acc) # st)"
| "finish v (FObject acc # st) = None"

definition begin_value :: "token \<Rightarrow> frame list \<Rightarrow> (pstate \<times> frame list) option" where
  "begin_value t st =
     (case t of
        TString s \<Rightarrow> finish (JString s) st
      | TNumber \<Rightarrow> finish JNumber st
      | TTrue \<Rightarrow> finish (JBool True) st
      | TFalse \<Rightarrow> finish (JBool False) st
      | TNull \<Rightarrow> finish JNull st
      | LBrace \<Rightarrow> if length st < maxNestingDepth then Some (PKeyOrEnd, FObject [] # st) else None
      | LBracket \<Rightarrow> if length st < maxNestingDepth then Some (PValueOrEnd, FArray [] # st) else None
      | _ \<Rightarrow> None)"

fun close_array :: "frame list \<Rightarrow> (pstate \<times> frame list) option" where
  "close_array (FArray acc # st) = finish (JArray (rev acc)) st"
| "close_array st = None"

fun close_object :: "frame list \<Rightarrow> (pstate \<times> frame list) option" where
  "close_object (FObject acc # st) = finish (JObject (rev acc)) st"
| "close_object st = None"

fun begin_key :: "string \<Rightarrow> frame list \<Rightarrow> (pstate \<times> frame list) option" where
  "begin_key k (FObject acc # st) = Some (PColon, FKey acc k # st)"
| "begin_key k st = None"

fun after_comma :: "frame list \<Rightarrow> (pstate \<times> frame list) option" where
  "after_comma (FArray acc # st) = Some (PValue, FArray acc # st)"
| "after_comma (FObject acc # st) = Some (PKey, FObject acc # st)"
| "after_comma st = None"

fun step :: "token \<Rightarrow> pstate \<times> frame list \<Rightarrow> (pstate \<times> frame list) option" where
  "step t (PValue, st) = begin_value t st"
| "step t (PValueOrEnd, st) = (if t = RBracket then close_array st else begin_value t st)"
| "step t (PKeyOrEnd, st) =
     (case t of RBrace \<Rightarrow> close_object st | TString k \<Rightarrow> begin_key k st | _ \<Rightarrow> None)"
| "step t (PKey, st) = (case t of TString k \<Rightarrow> begin_key k st | _ \<Rightarrow> None)"
| "step t (PColon, st) = (case t of Colon \<Rightarrow> Some (PValue, st) | _ \<Rightarrow> None)"
| "step t (PAfter, st) =
     (case t of
        Comma \<Rightarrow> after_comma st
      | RBracket \<Rightarrow> close_array st
      | RBrace \<Rightarrow> close_object st
      | _ \<Rightarrow> None)"
| "step t (PDone v, st) = None"

fun steps :: "token list \<Rightarrow> pstate \<times> frame list \<Rightarrow> (pstate \<times> frame list) option" where
  "steps [] s = Some s"
| "steps (t # ts) s = (case step t s of None \<Rightarrow> None | Some s' \<Rightarrow> steps ts s')"

definition parse :: "string \<Rightarrow> json option" where
  "parse data =
     (case lex data of
        None \<Rightarrow> None
      | Some ts \<Rightarrow>
          (case steps ts (PValue, []) of
             Some (PDone v, st) \<Rightarrow> Some v
           | _ \<Rightarrow> None))"


text \<open>
  \<^verbatim>\<open>json.Unmarshal\<close> into a \<^verbatim>\<open>*map[string]map[string]string\<close>. A text that is
  not JSON is a syntax error and nothing is stored. Otherwise \<^verbatim>\<open>null\<close> sets
  a map to \<^verbatim>\<open>nil\<close> and leaves a string as it is; an object stores its members
  in their order into the map (allocated if \<^verbatim>\<open>nil\<close>), each value decoded from the
  zero value of its type; a value of another kind is skipped, the first such
  mismatch is the error returned, and the decoding goes on.
\<close>

definition first_error :: "json_error option \<Rightarrow> json_error option \<Rightarrow> json_error option" where
  "first_error saved e = (case saved of None \<Rightarrow> e | Some x \<Rightarrow> Some x)"

fun decodeString :: "json \<Rightarrow> json_error option \<times> string" where
  "decodeString (JString s) = (None, s)"
| "decodeString JNull = (None, [])"
| "decodeString JNumber = (Some (UnmarshalTypeError ''number''), [])"
| "decodeString (JBool b) = (Some (UnmarshalTypeError ''bool''), [])"
| "decodeString (JArray xs) = (Some (UnmarshalTypeError ''array''), [])"
| "decodeString (JObject kvs) = (Some (UnmarshalTypeError ''object''), [])"

fun decodeMembers ::
  "(json \<Rightarrow> json_error option \<times> 'v) \<Rightarrow> (string \<times> json) list \<Rightarrow>
   json_error option \<times> (string \<times> 'v) list \<Rightarrow> json_error option \<times> (string \<times> 'v) list" where
  "decodeMembers dec [] acc = acc"
| "decodeMembers dec ((k, v) # kvs) (saved, al) =
     decodeMembers dec kvs (first_error saved (fst (dec v)), AList.update k (snd (dec v)) al)"

fun decodeMap ::
  "(json \<Rightarrow> json_error option \<times> 'v) \<Rightarrow> json \<Rightarrow> 'v gomap \<Rightarrow> json_error option \<times> 'v gomap" where
  "decodeMap dec JNull m = (None, None)"
| "decodeMap dec (JObject kvs) m =
     (case decodeMembers dec kvs (None, (case m of None \<Rightarrow> [] | Some al \<Rightarrow> al)) of
        (e, al) \<Rightarrow> (e, Some al))"
| "decodeMap dec (JString s) m = (Some (UnmarshalTypeError ''string''), m)"
| "decodeMap dec JNumber m = (Some (UnmarshalTypeError ''number''), m)"
| "decodeMap dec (JBool b) m = (Some (UnmarshalTypeError ''bool''), m)"
| "decodeMap dec (JArray xs) m = (Some (UnmarshalTypeError ''array''), m)"

definition Unmarshal :: "string \<Rightarrow> translation_map \<Rightarrow> json_error option \<times> translation_map" where
  "Unmarshal data m =
     (case parse data of
        None \<Rightarrow> (Some SyntaxError, m)
      | Some v \<Rightarrow> decodeMap (\<lambda>x. decodeMap decodeString x None) v m)"

subsection \<open>The data of the program\<close>

record Stats =
  APICalls :: int
  CharsSent :: int
  CostEstimate :: float64
  CacheHits :: int

text \<open>The zero value \<^verbatim>\<open>Stats{}\<close>.\<close>

definition zeroStats :: Stats where
  "zeroStats = \<lparr>APICalls = 0, CharsSent = 0, CostEstimate = Fin 0, CacheHits = 0\<rparr>"

record TranslationCache =
  Translations :: translation_map

type_synonym Language = string

text \<open>The fields \<^verbatim>\<open>client\<close> and \<^verbatim>\<open>ctx\<close> of \<^verbatim>\<open>Greeter\<close> belong to the
  environment below.\<close>

record Greeter =
  recipient :: string
  language :: Language
  cache :: TranslationCache
  cacheFile :: string
  projectID :: string
  stats :: Stats

record TranslateTextRequest =
  Contents :: "string list"
  TargetLanguageCode :: string
  SourceLanguageCode :: string
  MimeType :: string
  Parent :: string

text \<open>
  What lies outside the program, for one call: the hour that \<^verbatim>\<open>timeNow().Hour()\<close>
  returns; the answer of \<^verbatim>\<open>client.TranslateText\<close> to a request, an error text or
  the translated texts of the response; the outcome of \<^verbatim>\<open>os.WriteFile\<close> on a path
  and data, \<open>None\<close> for success or the error text with what the failed write
  left of the file; and whether the compiler fused the multiplication and
  addition of the cost update into one rounding, which the Go specification
  permits.
\<close>

record Env =
  hour :: int
  TranslateText :: "TranslateTextRequest \<Rightarrow> string + string list"
  WriteFile :: "string \<Rightarrow> string \<Rightarrow> (string \<times> string option) option"
  fused :: bool

text \<open>
  The effects of the program: the files by path, the lines given to \<^verbatim>\<open>log.Printf\<close>,
  the requests sent to the provider and the calls of \<^verbatim>\<open>os.WriteFile\<close> (path and
  data), each in order.
\<close>

datatype log_line = Line string | LoadWarning json_error

record World =
  files :: "string \<rightharpoonup> string"
  logs :: "log_line list"
  calls :: "TranslateTextRequest list"
  writes :: "(string \<times> string) list"

text \<open>A call returns a value, returns an error (with its text) or panics.\<close>

datatype fault = Error string | Panic string

subsection \<open>greeter.go\<close>

text \<open>\<^verbatim>\<open>saveCache\<close>: the error, if any, and the world after the write.\<close>

definition saveCache :: "Env \<Rightarrow> Greeter \<Rightarrow> World \<Rightarrow> string option \<times> World" where
  "saveCache env g w =
     (let data = MarshalIndent (Translations (cache g));
          w1 = w\<lparr>writes := writes w @ [(cacheFile g, data)]\<rparr>
      in case WriteFile env (cacheFile g) data of
           None \<Rightarrow> (None, w1\<lparr>files := (files w1)(cacheFile g \<mapsto> data)\<rparr>)
         | Some (msg, left) \<Rightarrow>
             (Some (''failed to save cache: '' @ msg), w1\<lparr>files := (files w1)(cacheFile g := left)\<rparr>))"

text \<open>
  \<^verbatim>\<open>NewGreeter\<close>. The environment variables and the outcome of
  \<^verbatim>\<open>translate.NewTranslationClient\<close> (an error text, or \<open>None\<close> for a client)
  are given; \<^verbatim>\<open>os.ReadFile\<close> fails on a path that holds no file.
\<close>

record Setup =
  getenv :: "string \<Rightarrow> string"
  NewTranslationClient :: "string option"

definition NewGreeter :: "Setup \<Rightarrow> string \<Rightarrow> World \<Rightarrow> (fault + Greeter) \<times> World" where
  "NewGreeter su r w =
     (let projectID' = getenv su ''GOOGLE_CLOUD_PROJECT_ID'' in
      if projectID' = [] then
        (Inl (Error ''GOOGLE_CLOUD_PROJECT_ID environment variable is not set''), w)
      else if getenv su ''GOOGLE_APPLICATION_CREDENTIALS'' = [] then
        (Inl (Error (''GOOGLE_APPLICATION_CREDENTIALS environment variable is not set. ''
                     @ ''Please set it to the path of your service account key'')), w)
      else case NewTranslationClient su of
        Some err \<Rightarrow> (Inl (Error (''failed to create translate client: '' @ err)), w)
      | None \<Rightarrow>
          let cacheFile' = ''translation_cache.json'';
              (loaded, w') =
                (case files w cacheFile' of
                   None \<Rightarrow> (Some [], w)
                 | Some data \<Rightarrow>
                     (case Unmarshal data (Some []) of
                        (None, m) \<Rightarrow> (m, w)
                      | (Some err, m) \<Rightarrow> (m, w\<lparr>logs := logs w @ [LoadWarning err]\<rparr>)))
          in (Inr \<lparr>recipient = r, language = ''en'', cache = \<lparr>Translations = loaded\<rparr>,
                   cacheFile = cacheFile', projectID = projectID', stats = zeroStats\<rparr>, w'))"

definition SetLanguage :: "Language \<Rightarrow> Greeter \<Rightarrow> Greeter" where
  "SetLanguage lang g = g\<lparr>language := lang\<rparr>"

definition getTimeBasedGreeting :: "Env \<Rightarrow> Greeter \<Rightarrow> string" where
  "getTimeBasedGreeting env g =
     (let greeting =
            (if hour env < 12 then ''Good morning''
             else if hour env < 17 then ''Good afternoon''
             else if hour env < 22 then ''Good evening''
             else ''Good night'')
      in greeting @ '', '' @ recipient g @ ''!'')"

text \<open>The cache lookup at the head of \<^verbatim>\<open>translateGreeting\<close>.\<close>

definition cacheLookup :: "TranslationCache \<Rightarrow> string \<Rightarrow> string \<Rightarrow> string option" where
  "cacheLookup c text targetLang =
     (case map_index (Translations c) text of
        None \<Rightarrow> None
      | Some langCache \<Rightarrow> map_index langCache targetLang)"

text \<open>
  The statement \<^verbatim>\<open>g.stats.CostEstimate += float64(len(text)) * 0.00002\<close> for a
  length \<open>n\<close>: the product and the sum are each rounded, or the compiler has
  fused them and the exact \<open>x * y + z\<close> is rounded once.
\<close>

definition addCost :: "bool \<Rightarrow> float64 \<Rightarrow> int \<Rightarrow> float64" where
  "addCost fma cost n =
     (if fma then fma64 (float64_of_int n) unitCost cost
      else fadd64 cost (fmul64 (float64_of_int n) unitCost))"

text \<open>The statistics of an attempted call, updated before the request is sent.\<close>

definition countCall :: "Env \<Rightarrow> string \<Rightarrow> Stats \<Rightarrow> Stats" where
  "countCall env text st =
     st\<lparr>APICalls := APICalls st + 1,
        CharsSent := CharsSent st + int (length text),
        CostEstimate := addCost (fused env) (CostEstimate st) (int (length text))\<rparr>"

text \<open>The insertion into the cache; \<open>None\<close> is the panic of an assignment to an
  entry of a \<^verbatim>\<open>nil\<close> map.\<close>

definition cacheInsert :: "string \<Rightarrow> string \<Rightarrow> string \<Rightarrow> TranslationCache \<Rightarrow> TranslationCache option" where
  "cacheInsert text targetLang translation c =
     (case Translations c of
        None \<Rightarrow> None
      | Some al \<Rightarrow>
          let inner = (case map_of al text of Some (Some langCache) \<Rightarrow> langCache | _ \<Rightarrow> [])
          in Some (c\<lparr>Translations :=
                       Some (AList.update text (Some (AList.update targetLang translation inner)) al)\<rparr>))"

text \<open>The request that \<^verbatim>\<open>translateGreeting\<close> builds for a text.\<close>

definition translateRequest :: "Greeter \<Rightarrow> string \<Rightarrow> TranslateTextRequest" where
  "translateRequest g text =
     \<lparr>Contents = [text], TargetLanguageCode = language g,
      SourceLanguageCode = ''en'', MimeType = ''text/plain'',
      Parent = ''projects/'' @ projectID g\<rparr>"

definition translateGreeting ::
  "Env \<Rightarrow> string \<Rightarrow> Greeter \<times> World \<Rightarrow> (fault + string) \<times> Greeter \<times> World" where
  "translateGreeting env text gw =
     (let (g, w) = gw; targetLang = language g in
      case cacheLookup (cache g) text targetLang of
        Some translation \<Rightarrow>
          (Inr translation, g\<lparr>stats := (stats g)\<lparr>CacheHits := CacheHits (stats g) + 1\<rparr>\<rparr>, w)
      | None \<Rightarrow>
          let g1 = g\<lparr>stats := countCall env text (stats g)\<rparr>;
              w1 = w\<lparr>logs := logs w @ [Line (''Translating text to '' @ targetLang)]\<rparr>;
              req = translateRequest g text;
              w2 = w1\<lparr>calls := calls w1 @ [req]\<rparr>
          in case TranslateText env req of
               Inl err \<Rightarrow> (Inl (Error (''translation failed: '' @ err)), g1, w2)
             | Inr [] \<Rightarrow> (Inl (Error ''no translation returned''), g1, w2)
             | Inr (translation # _) \<Rightarrow>
                 (case cacheInsert text targetLang translation (cache g1) of
                    None \<Rightarrow> (Inl (Panic ''assignment to entry in nil map''), g1, w2)
                  | Some c \<Rightarrow>
                      let g2 = g1\<lparr>cache := c\<rparr>;
                          (err, w3) = saveCache env g2 w2;
                          w4 = (case err of
                                  None \<Rightarrow> w3
                                | Some e \<Rightarrow>
                                    w3\<lparr>logs := logs w3 @ [Line (''Warning: Failed to save cache: '' @ e)]\<rparr>)
                      in (Inr translation, g2, w4)))"

definition Greet :: "Env \<Rightarrow> Greeter \<times> World \<Rightarrow> (fault + string) \<times> Greeter \<times> World" where
  "Greet env gw =
     (let (g, w) = gw; greeting = getTimeBasedGreeting env g in
      if language g \<noteq> ''en'' then
        (case translateGreeting env greeting (g, w) of
           (Inl (Error err), gw') \<Rightarrow> (Inl (Error (''translation failed: '' @ err)), gw')
         | (Inl (Panic p), gw') \<Rightarrow> (Inl (Panic p), gw')
         | (Inr translated, gw') \<Rightarrow> (Inr translated, gw'))
      else (Inr greeting, g\<lparr>stats := (stats g)\<lparr>CacheHits := CacheHits (stats g) + 1\<rparr>\<rparr>, w))"

text \<open>
  A use of a \<^verbatim>\<open>Greeter\<close>: its methods called one after the other, each in the
  environment of its call. (A panic ends the program; the sequence going on
  after one only adds states.)
\<close>

datatype op = OpSetLanguage Language | OpGreet Env | OpTranslate Env string

fun apply_op :: "op \<Rightarrow> Greeter \<times> World \<Rightarrow> Greeter \<times> World" where
  "apply_op (OpSetLanguage lang) (g, w) = (SetLanguage lang g, w)"
| "apply_op (OpGreet env) gw = snd (Greet env gw)"
| "apply_op (OpTranslate env text) gw = snd (translateGreeting env text gw)"


fun run :: "op list \<Rightarrow> Greeter \<times> World \<Rightarrow> Greeter \<times> World" where
  "run [] gw = gw"
| "run (x # xs) gw = run xs (apply_op x gw)"


subsection \<open>server.go\<close>

text \<open>\<^verbatim>\<open>updateGlobalStats\<close>: the global statistics after adding those of a request;
  \<open>None\<close> is the \<^verbatim>\<open>nil\<close> pointer.\<close>

definition updateGlobalStats :: "Stats option \<Rightarrow> Stats \<Rightarrow> Stats" where
  "updateGlobalStats newStats globalStats =
     (case newStats of
        None \<Rightarrow> globalStats
      | Some n \<Rightarrow>
          globalStats\<lparr>APICalls := APICalls globalStats + APICalls n,
                      CharsSent := CharsSent globalStats + CharsSent n,
                      CostEstimate := fadd64 (CostEstimate globalStats) (CostEstimate n),
                      CacheHits := CacheHits globalStats + CacheHits n\<rparr>)"

subsection \<open>Auxiliary notions for the round trip of a snapshot\<close>

text \<open>
  A cache whose association lists have distinct keys (as a Go map has) and
  whose source texts, language codes and translations are all valid UTF-8.
\<close>

definition validInner :: "string gomap \<Rightarrow> bool" where
  "validInner im =
     (case im of
        None \<Rightarrow> True
      | Some al \<Rightarrow> distinct (map fst al) \<and> (\<forall>(k, v) \<in> set al. ValidString k \<and> ValidString v))"

definition validTranslations :: "translation_map \<Rightarrow> bool" where
  "validTranslations m =
     (case m of
        None \<Rightarrow> True
      | Some al \<Rightarrow> distinct (map fst al) \<and> (\<forall>(k, im) \<in> set al. ValidString k \<and> validInner im))"

text \<open>The tokens of an encoded map, by the tokens of its values, and the
  JSON value they denote.\<close>

fun member_tokens :: "('v \<Rightarrow> token list) \<Rightarrow> (string \<times> 'v) list \<Rightarrow> token list" where
  "member_tokens tv [] = []"
| "member_tokens tv [(k, v)] = TString k # Colon # tv v"
| "member_tokens tv ((k, v) # kv # kvs) =
     TString k # Colon # tv v @ Comma # member_tokens tv (kv # kvs)"

definition map_tokens :: "('v \<Rightarrow> token list) \<Rightarrow> 'v gomap \<Rightarrow> token list" where
  "map_tokens tv m =
     (case m of
        None \<Rightarrow> [TNull]
      | Some al \<Rightarrow> LBrace # member_tokens tv (sort_key fst al) @ [RBrace])"

definition map_json :: "('v \<Rightarrow> json) \<Rightarrow> 'v gomap \<Rightarrow> json" where
  "map_json jv m =
     (case m of
        None \<Rightarrow> JNull
      | Some al \<Rightarrow> JObject (map (\<lambda>(k, v). (k, jv v)) (sort_key fst al)))"

text \<open>A map with its keys in order, which is how a decoded snapshot holds it.\<close>

definition sorted_map :: "('v \<Rightarrow> 'v) \<Rightarrow> 'v gomap \<Rightarrow> 'v gomap" where
  "sorted_map f m = map_option (\<lambda>al. map (\<lambda>(k, v). (k, f v)) (sort_key fst al)) m"

text \<open>Tokens put before the tokens of the rest of a text.\<close>

definition pre :: "token list \<Rightarrow> token list option \<Rightarrow> token list option" where
  "pre ts r = map_option ((@) ts) r"

text \<open>An encoder of values whose output lexes to the tokens \<open>tv\<close> gives.\<close>

definition lexes :: "('v \<Rightarrow> string) \<Rightarrow> ('v \<Rightarrow> token list) \<Rightarrow> 'v \<Rightarrow> bool" where
  "lexes enc tv v = (\<forall>X. lex (enc v @ X) = pre (tv v) (lex X))"

text \<open>Values whose tokens, met where a member's value is expected above the
  stack \<open>st\<close>, leave the value \<open>jv\<close> gives in the open object.\<close>

definition parses :: "frame list \<Rightarrow> ('v \<Rightarrow> token list) \<Rightarrow> ('v \<Rightarrow> json) \<Rightarrow> 'v \<Rightarrow> bool" where
  "parses st tv jv v =
     (\<forall>acc k ts. steps (tv v @ ts) (PValue, FKey acc k # st)
                   = steps ts (PAfter, FObject ((k, jv v) # acc) # st))"

subsection \<open>greeter_test.go\<close>

text \<open>
  \<^verbatim>\<open>newTestGreeter\<close> (the name of the temporary file is a parameter), and the
  answer of a \<^verbatim>\<open>mockTranslationClient\<close> whose table of translations has not been
  built by an earlier call. The Spanish and Japanese marks are the UTF-8 bytes
  of \<open>U+00A1\<close> and \<open>U+FF01\<close>.
\<close>

definition newTestGreeter :: "string \<Rightarrow> string \<Rightarrow> Greeter" where
  "newTestGreeter r tmpfile =
     \<lparr>recipient = r, language = ''en'', cache = \<lparr>Translations = Some []\<rparr>,
      cacheFile = tmpfile, projectID = ''test-project'', stats = zeroStats\<rparr>"

definition mockTranslateText :: "bool \<Rightarrow> TranslateTextRequest \<Rightarrow> string + string list" where
  "mockTranslateText shouldError req =
     (if shouldError then Inl ''mock translation error''
      else case Contents req of
        [] \<Rightarrow> Inl ''index out of range''
      | text # _ \<Rightarrow>
          (case map_of
                  [(''es'', [CHR 0xC2, CHR 0xA1] @ text @ ''!''),
                   (''fr'', text @ '' !''),
                   (''ja'', text @ [CHR 0xEF, CHR 0xBC, CHR 0x81]),
                   (''de'', text @ ''!'')]
                  (TargetLanguageCode req) of
             None \<Rightarrow> Inl ''unsupported language code''
           | Some translation \<Rightarrow> Inr [translation]))"

text \<open>An environment for the tests: the mock client, a disk that accepts or
  refuses every write, and the hour of the mocked clock.\<close>

definition testEnv :: "int \<Rightarrow> bool \<Rightarrow> bool \<Rightarrow> bool \<Rightarrow> Env" where
  "testEnv h shouldError diskFails fma =
     \<lparr>hour = h, TranslateText = mockTranslateText shouldError,
      WriteFile = (\<lambda>path data. if diskFails then Some (''permission denied'', None) else None),
      fused = fma\<rparr>"

definition testWorld :: "string \<Rightarrow> World" where
  "testWorld tmpfile = \<lparr>files = [tmpfile \<mapsto> []], logs = [], calls = [], writes = []\<rparr>"


text \<open>
  A setup in which \<^verbatim>\<open>NewGreeter\<close> finds its configuration, a world whose only
  file is the snapshot, and a snapshot that is JSON but holds a number where a
  map of translations belongs:
  \<^verbatim>\<open>{"a":{"b":"c"},"d":1}\<close>.
\<close>

definition testSetup :: Setup where
  "testSetup =
     \<lparr>getenv = (\<lambda>name. if name = ''GOOGLE_CLOUD_PROJECT_ID'' then ''test-project''
                        else if name = ''GOOGLE_APPLICATION_CREDENTIALS'' then ''key.json''
                        else []),
      NewTranslationClient = None\<rparr>"

definition snapshotWorld :: "string \<Rightarrow> World" where
  "snapshotWorld data =
     \<lparr>files = [''translation_cache.json'' \<mapsto> data], logs = [], calls = [], writes = []\<rparr>"

definition mismatchedSnapshot :: string where
  "mismatchedSnapshot =
     ''{'' @ appendString ''a'' @ '':{'' @ appendString ''b'' @ '':'' @ appendString ''c'' @ ''},''
       @ appendString ''d'' @ '':1}''"

text \<open>One Spanish greeting at hour 8 by a greeter of the tests whose snapshot is
  the file that \<^verbatim>\<open>NewGreeter\<close> reads, as in \<^verbatim>\<open>TestCachePersistence\<close>.\<close>

definition greetOnce :: "string \<Rightarrow> Greeter \<times> World" where
  "greetOnce r =
     run [OpSetLanguage ''es'', OpGreet (testEnv 8 False False False)]
       (newTestGreeter r ''translation_cache.json'', testWorld ''translation_cache.json'')"

section \<open>Properties\<close>

subsection \<open>The greeting\<close>

text \<open>
  Claim C1. The greeting is a function of the recipient \<open>X\<close> and the hour \<open>h\<close>
  alone: an hour in \<open>[0,12)\<close> gives \<open>Good morning, X!\<close>, in \<open>[12,17)\<close>
  \<open>Good afternoon, X!\<close>, in \<open>[17,22)\<close> \<open>Good evening, X!\<close> and in
  \<open>[22,24)\<close> \<open>Good night, X!\<close>.
\<close>
theorem C1_time_based_greeting:
  assumes "recipient g = X" and "hour env = h"
  shows "(0 \<le> h \<and> h < 12 \<longrightarrow> getTimeBasedGreeting env g = ''Good morning, '' @ X @ ''!'')
       \<and> (12 \<le> h \<and> h < 17 \<longrightarrow> getTimeBasedGreeting env g = ''Good afternoon, '' @ X @ ''!'')
       \<and> (17 \<le> h \<and> h < 22 \<longrightarrow> getTimeBasedGreeting env g = ''Good evening, '' @ X @ ''!'')
       \<and> (22 \<le> h \<and> h < 24 \<longrightarrow> getTimeBasedGreeting env g = ''Good night, '' @ X @ ''!'')"
  using assms by (simp add: getTimeBasedGreeting_def)

text \<open>The hours 8, 11, 12, 17 and 22 for the recipient of the tests.\<close>
theorem C1_time_based_greeting_witness:
  "getTimeBasedGreeting (testEnv 8 False False False) (newTestGreeter ''Test'' ''tmp'') = ''Good morning, Test!''
   \<and> getTimeBasedGreeting (testEnv 11 False False False) (newTestGreeter ''Test'' ''tmp'') = ''Good morning, Test!''
   \<and> getTimeBasedGreeting (testEnv 12 False False False) (newTestGreeter ''Test'' ''tmp'') = ''Good afternoon, Test!''
   \<and> getTimeBasedGreeting (testEnv 17 False False False) (newTestGreeter ''Test'' ''tmp'') = ''Good evening, Test!''
   \<and> getTimeBasedGreeting (testEnv 22 False False False) (newTestGreeter ''Test'' ''tmp'') = ''Good night, Test!''"
  using C1_time_based_greeting [of "newTestGreeter ''Test'' ''tmp''" "''Test''" "testEnv 8 False False False" 8]
        C1_time_based_greeting [of "newTestGreeter ''Test'' ''tmp''" "''Test''" "testEnv 11 False False False" 11]
        C1_time_based_greeting [of "newTestGreeter ''Test'' ''tmp''" "''Test''" "testEnv 12 False False False" 12]
        C1_time_based_greeting [of "newTestGreeter ''Test'' ''tmp''" "''Test''" "testEnv 17 False False False" 17]
        C1_time_based_greeting [of "newTestGreeter ''Test'' ''tmp''" "''Test''" "testEnv 22 False False False" 22]
  by (simp add: newTestGreeter_def testEnv_def)

subsection \<open>The cache and the statistics of one call\<close>
lemma map_of_update_same: "map_of (AList.update k v al) k = Some v"
  by (simp add: update_conv')

lemma cacheLookup_cacheInsert:
  assumes "cacheInsert text lang t c = Some c'"
  shows "cacheLookup c' text lang = Some t"
  using assms
  by (auto simp: cacheInsert_def cacheLookup_def map_index_def Let_def update_conv'
           split: option.splits)

lemma cacheLookup_cacheInsert_other:
  assumes "cacheInsert text lang t c = Some c'" and "(text', lang') \<noteq> (text, lang)"
  shows "cacheLookup c' text' lang' = cacheLookup c text' lang'"
proof -
  obtain al where al: "Translations c = Some al"
    using assms(1) by (auto simp: cacheInsert_def split: option.splits)
  define inner where "inner = (case map_of al text of Some (Some langCache) \<Rightarrow> langCache | _ \<Rightarrow> [])"
  have c': "Translations c' = Some (AList.update text (Some (AList.update lang t inner)) al)"
    using assms(1) al by (auto simp: cacheInsert_def inner_def Let_def)
  show ?thesis
  proof (cases "text' = text")
    case True
    then have "lang' \<noteq> lang" using assms(2) by simp
    then show ?thesis
      using True al c'
      by (auto simp: cacheLookup_def map_index_def update_conv' inner_def split: option.splits)
  next
    case False
    then show ?thesis
      using al c' by (simp add: cacheLookup_def map_index_def update_conv')
  qed
qed

lemma translateGreeting_hit:
  assumes "cacheLookup (cache g) text (language g) = Some t"
  shows "translateGreeting env text (g, w) =
           (Inr t, g\<lparr>stats := (stats g)\<lparr>CacheHits := CacheHits (stats g) + 1\<rparr>\<rparr>, w)"
  using assms by (simp add: translateGreeting_def)

lemma translateGreeting_success:
  assumes "translateGreeting env text (g, w) = (Inr t, g', w')"
  shows "cacheLookup (cache g') text (language g') = Some t"
  using assms
  by (auto simp: translateGreeting_def Let_def cacheLookup_cacheInsert
           split: option.splits sum.splits list.splits prod.splits)


lemma translateGreeting_miss_stats:
  assumes "cacheLookup (cache g) text (language g) = None"
  shows "stats (fst (snd (translateGreeting env text (g, w)))) = countCall env text (stats g)"
  using assms
  by (simp add: translateGreeting_def Let_def split: sum.splits list.splits option.splits prod.splits)

lemma translateGreeting_language:
  "language (fst (snd (translateGreeting env text (g, w)))) = language g"
  by (simp add: translateGreeting_def Let_def cacheInsert_def
           split: sum.splits list.splits option.splits prod.splits)

text \<open>
  Claim C2. After a translate of a text that returned a translation, a second
  translate of the same text in the same language, in any environment, returns
  the same translation, adds one to \<open>CacheHits\<close>, leaves \<open>APICalls\<close>,
  \<open>CharsSent\<close> and \<open>CostEstimate\<close> as they were, sends no request, writes no
  file and leaves the cache as it was.
\<close>
theorem C2_cache_idempotence:
  assumes "translateGreeting env text (g, w) = (Inr t, g1, w1)"
  shows "case translateGreeting env' text (g1, w1) of
           (r, g2, w2) \<Rightarrow>
             r = Inr t
             \<and> CacheHits (stats g2) = CacheHits (stats g1) + 1
             \<and> APICalls (stats g2) = APICalls (stats g1)
             \<and> CharsSent (stats g2) = CharsSent (stats g1)
             \<and> CostEstimate (stats g2) = CostEstimate (stats g1)
             \<and> calls w2 = calls w1
             \<and> writes w2 = writes w1
             \<and> files w2 = files w1
             \<and> cache g2 = cache g1"
proof -
  have "cacheLookup (cache g1) text (language g1) = Some t"
    using assms by (rule translateGreeting_success)
  then show ?thesis by (simp add: translateGreeting_hit)
qed

text \<open>
  Claim C3. With the language \<open>en\<close>, \<open>Greet\<close> returns the base greeting, sends
  no request, changes neither the world nor the cache, adds one to
  \<open>CacheHits\<close> and leaves \<open>APICalls\<close>, \<open>CharsSent\<close> and \<open>CostEstimate\<close>
  as they were.
\<close>
theorem C3_default_language:
  assumes "language g = ''en''"
  shows "case Greet env (g, w) of
           (r, g', w') \<Rightarrow>
             r = Inr (getTimeBasedGreeting env g)
             \<and> calls w' = calls w
             \<and> w' = w
             \<and> cache g' = cache g
             \<and> CacheHits (stats g') = CacheHits (stats g) + 1
             \<and> APICalls (stats g') = APICalls (stats g)
             \<and> CharsSent (stats g') = CharsSent (stats g)
             \<and> CostEstimate (stats g') = CostEstimate (stats g)"
  using assms by (simp add: Greet_def Let_def)


text \<open>
  Claim C6. On a cache miss, when the provider returns an error or no
  translation, \<open>translateGreeting\<close> returns an error, the cache is what it was
  (no entry for the text and language, every other lookup unchanged) and no
  file is written.
\<close>
theorem C6_failure_isolation:
  assumes "cacheLookup (cache g) text (language g) = None"
    and "case TranslateText env (translateRequest g text) of Inl err \<Rightarrow> True | Inr ts \<Rightarrow> ts = []"
  shows "case translateGreeting env text (g, w) of
           (r, g', w') \<Rightarrow>
             (\<exists>msg. r = Inl (Error msg))
             \<and> cache g' = cache g
             \<and> cacheLookup (cache g') text (language g') = None
             \<and> (\<forall>text' lang'. cacheLookup (cache g') text' lang' = cacheLookup (cache g) text' lang')
             \<and> files w' = files w
             \<and> writes w' = writes w"
  using assms
  by (auto simp: translateGreeting_def Let_def split: sum.splits list.splits)

text \<open>
  Claim C8. On a cache miss, when the provider returns a translation and the
  write of the snapshot that follows fails, \<open>translateGreeting\<close> returns the
  translation, the cache holds it under the text and language, the other
  entries are what they were, and the failure is only logged.
\<close>
theorem C8_persistence_failure_absorbed:
  assumes "cacheLookup (cache g) text (language g) = None"
    and "TranslateText env (translateRequest g text) = Inr (t # ts)"
    and "translateGreeting env text (g, w) = (r, g', w')"
    and "writes w' = writes w @ [(path, data)]"
    and "WriteFile env path data = Some (msg, left)"
  shows "r = Inr t
       \<and> cacheLookup (cache g') text (language g') = Some t
       \<and> (\<forall>text' lang'. (text', lang') \<noteq> (text, language g) \<longrightarrow>
             cacheLookup (cache g') text' lang' = cacheLookup (cache g) text' lang')
       \<and> logs w' = logs w @ [Line (''Translating text to '' @ language g),
                               Line (''Warning: Failed to save cache: failed to save cache: '' @ msg)]"
proof (cases "cacheInsert text (language g) t (cache g)")
  case None
  then have "writes w' = writes w"
    using assms(1,2,3) by (auto simp: translateGreeting_def Let_def)
  with assms(4) show ?thesis by simp
next
  case (Some c)
  have g': "g' = g\<lparr>stats := countCall env text (stats g), cache := c\<rparr>" and r: "r = Inr t"
    using assms(1,2,3) Some
    by (auto simp: translateGreeting_def Let_def split: prod.splits)
  have pd: "path = cacheFile g" "data = MarshalIndent (Translations c)"
    using assms(1,2,3,4) Some
    by (auto simp: translateGreeting_def Let_def saveCache_def split: prod.splits option.splits)
  have lg: "logs w' = logs w @ [Line (''Translating text to '' @ language g),
                               Line (''Warning: Failed to save cache: failed to save cache: '' @ msg)]"
    using assms(1,2,3,5) Some pd
    by (auto simp: translateGreeting_def Let_def saveCache_def split: prod.splits option.splits)
  show ?thesis
    using r lg g' cacheLookup_cacheInsert[OF Some] cacheLookup_cacheInsert_other[OF Some]
    by simp
qed


lemmas test_defs = testEnv_def testWorld_def newTestGreeter_def SetLanguage_def zeroStats_def
  mockTranslateText_def translateRequest_def cacheLookup_def map_index_def cacheInsert_def

text \<open>The theorem at the greeter of the tests, for Spanish at hour 8.\<close>

theorem C2_cache_idempotence_witness:
  "case translateGreeting (testEnv 8 False False False) ''Good morning, Test!''
          (SetLanguage ''es'' (newTestGreeter ''Test'' ''tmp''), testWorld ''tmp'') of
     (r1, g1, w1) \<Rightarrow>
       r1 = Inr ([CHR 0xC2, CHR 0xA1] @ ''Good morning, Test!!'')
       \<and> CacheHits (stats g1) = 0 \<and> APICalls (stats g1) = 1
       \<and> (case translateGreeting (testEnv 8 True True False) ''Good morning, Test!'' (g1, w1) of
            (r, g2, w2) \<Rightarrow>
              r = r1 \<and> CacheHits (stats g2) = 1 \<and> APICalls (stats g2) = 1
              \<and> calls w2 = calls w1 \<and> writes w2 = writes w1)"
proof -
  obtain r1 g1 w1 where e:
    "translateGreeting (testEnv 8 False False False) ''Good morning, Test!''
       (SetLanguage ''es'' (newTestGreeter ''Test'' ''tmp''), testWorld ''tmp'') = (r1, g1, w1)"
    by (cases "translateGreeting (testEnv 8 False False False) ''Good morning, Test!''
       (SetLanguage ''es'' (newTestGreeter ''Test'' ''tmp''), testWorld ''tmp'')")
  have r1: "r1 = Inr ([CHR 0xC2, CHR 0xA1] @ ''Good morning, Test!!'')"
    and st: "CacheHits (stats g1) = 0" "APICalls (stats g1) = 1"
    using e by (auto simp: translateGreeting_def Let_def test_defs saveCache_def countCall_def)
  show ?thesis
    using C2_cache_idempotence [OF e [unfolded r1], of "testEnv 8 True True False"] e r1 st
    by (simp split: prod.splits)
qed

text \<open>The theorem at the greeter of the tests, for Spanish at hour 8.\<close>

theorem C3_default_language_witness:
  "case Greet (testEnv 8 True False False) (newTestGreeter ''Test'' ''tmp'', testWorld ''tmp'') of
     (r, g', w') \<Rightarrow>
       r = Inr ''Good morning, Test!'' \<and> calls w' = [] \<and> CacheHits (stats g') = 1
       \<and> APICalls (stats g') = 0 \<and> CharsSent (stats g') = 0 \<and> CostEstimate (stats g') = Fin 0"
  using C3_default_language [of "newTestGreeter ''Test'' ''tmp''" "testEnv 8 True False False" "testWorld ''tmp''"]
  by (simp add: test_defs getTimeBasedGreeting_def split: prod.splits)


text \<open>The theorem at the greeter of the tests, for Spanish at hour 8.\<close>

theorem C6_failure_isolation_witness:
  "case translateGreeting (testEnv 8 True False False) ''Good morning, Test!''
          (SetLanguage ''es'' (newTestGreeter ''Test'' ''tmp''), testWorld ''tmp'') of
     (r, g', w') \<Rightarrow>
       r = Inl (Error ''translation failed: mock translation error'')
       \<and> cache g' = \<lparr>Translations = Some []\<rparr>
       \<and> files w' = [''tmp'' \<mapsto> []]
       \<and> writes w' = []"
proof -
  let ?g = "SetLanguage ''es'' (newTestGreeter ''Test'' ''tmp'')"
  let ?w = "testWorld ''tmp''"
  let ?env = "testEnv 8 True False False"
  let ?text = "''Good morning, Test!''"
  have miss: "cacheLookup (cache ?g) ?text (language ?g) = None"
    by (simp add: test_defs)
  have fail: "case TranslateText ?env (translateRequest ?g ?text) of Inl err \<Rightarrow> True | Inr ts \<Rightarrow> ts = []"
    by (simp add: test_defs)
  have r: "fst (translateGreeting ?env ?text (?g, ?w)) = Inl (Error ''translation failed: mock translation error'')"
    by (simp add: translateGreeting_def Let_def test_defs)
  show ?thesis
    using C6_failure_isolation [OF miss fail, of ?w] r
    by (auto simp: test_defs split: prod.splits)
qed

text \<open>The theorem at the greeter of the tests, for Spanish at hour 8.\<close>

theorem C8_persistence_failure_absorbed_witness:
  "case translateGreeting (testEnv 8 False True False) ''Good morning, Test!''
          (SetLanguage ''es'' (newTestGreeter ''Test'' ''tmp''), testWorld ''tmp'') of
     (r, g', w') \<Rightarrow>
       r = Inr ([CHR 0xC2, CHR 0xA1] @ ''Good morning, Test!!'')
       \<and> cacheLookup (cache g') ''Good morning, Test!'' ''es''
           = Some ([CHR 0xC2, CHR 0xA1] @ ''Good morning, Test!!'')
       \<and> length (writes w') = 1
       \<and> files w' ''tmp'' = None"
proof -
  let ?g = "SetLanguage ''es'' (newTestGreeter ''Test'' ''tmp'')"
  let ?w = "testWorld ''tmp''"
  let ?env = "testEnv 8 False True False"
  let ?text = "''Good morning, Test!''"
  let ?t = "[CHR 0xC2, CHR 0xA1] @ ''Good morning, Test!!''"
  let ?data = "MarshalIndent (Some [(?text, Some [(''es'', ?t)])])"
  have miss: "cacheLookup (cache ?g) ?text (language ?g) = None"
    by (simp add: test_defs)
  have ok: "TranslateText ?env (translateRequest ?g ?text) = Inr (?t # [])"
    by (simp add: test_defs)
  obtain r g' w' where e: "translateGreeting ?env ?text (?g, ?w) = (r, g', w')"
    by (cases "translateGreeting ?env ?text (?g, ?w)")
  have wr: "writes w' = writes ?w @ [(''tmp'', ?data)]" and fl: "files w' ''tmp'' = None"
    and lg: "language g' = ''es''"
    using e by (auto simp: translateGreeting_def Let_def test_defs saveCache_def)
  have fails: "WriteFile ?env ''tmp'' ?data = Some (''permission denied'', None)"
    by (simp add: test_defs)
  show ?thesis
    using C8_persistence_failure_absorbed [OF miss ok e wr fails] e wr fl lg
    by (simp add: testWorld_def)
qed

subsection \<open>Arithmetic of float64\<close>

lemma bitlen_powi_bounds:
  assumes "0 < n"
  shows "(2::rat) powi (bitlen n - 1) \<le> of_int n" "of_int n < (2::rat) powi bitlen n"
proof -
  have b: "2 ^ nat (bitlen n - 1) \<le> n" "n < 2 ^ nat (bitlen n)"
    using bitlen_bounds[OF assms] by auto
  have pos: "0 < bitlen n"
    using assms bitlen_nonneg[of n] bitlen_eq_zero_iff[of n] by linarith
  have "(2::rat) powi (bitlen n - 1) = of_int (2 ^ nat (bitlen n - 1))"
    using pos by (simp add: power_int_def)
  also have "\<dots> \<le> of_int n" using b(1) by (simp only: of_int_le_iff)
  finally show "(2::rat) powi (bitlen n - 1) \<le> of_int n" .
  have "(of_int n :: rat) < of_int (2 ^ nat (bitlen n))" using b(2) by (simp only: of_int_less_iff)
  also have "\<dots> = 2 powi bitlen n" using pos by (simp add: power_int_def)
  finally show "of_int n < (2::rat) powi bitlen n" .
qed

lemma floor_log2_bounds:
  assumes "0 < a"
  shows "2 powi floor_log2 a \<le> a \<and> a < 2 powi (floor_log2 a + 1)"
proof -
  obtain n d where nd: "quotient_of a = (n, d)" by (cases "quotient_of a")
  have d: "0 < d" using nd quotient_of_denom_pos by blast
  have a: "a = of_int n / of_int d" using nd quotient_of_div by blast
  have n: "0 < n" using assms a d by (simp add: zero_less_divide_iff)
  define k where "k = bitlen n - bitlen d"
  have hi: "a < 2 powi (k + 1)"
  proof -
    have "of_int n < (2::rat) powi bitlen n" "(2::rat) powi (bitlen d - 1) \<le> of_int d"
      using bitlen_powi_bounds n d by auto
    then have "of_int n / of_int d < (2::rat) powi bitlen n / 2 powi (bitlen d - 1)"
      using d n by (intro frac_less) auto
    also have "\<dots> = 2 powi (bitlen n - (bitlen d - 1))"
      by (subst power_int_diff) auto
    also have "bitlen n - (bitlen d - 1) = k + 1"
      by (simp add: k_def)
    finally show ?thesis using a by simp
  qed
  have lo: "2 powi (k - 1) \<le> a"
  proof -
    have "(2::rat) powi (bitlen n - 1) \<le> of_int n" "of_int d < (2::rat) powi (bitlen d)"
      using bitlen_powi_bounds n d by auto
    then have "(2::rat) powi (bitlen n - 1) / 2 powi (bitlen d) \<le> of_int n / of_int d"
      using d n by (intro frac_le) auto
    moreover have "(2::rat) powi (bitlen n - 1) / 2 powi (bitlen d) = 2 powi (bitlen n - 1 - bitlen d)"
      by (subst power_int_diff) auto
    moreover have "bitlen n - 1 - bitlen d = k - 1"
      by (simp add: k_def)
    ultimately show ?thesis using a by simp
  qed
  have fl: "floor_log2 a = (if 2 powi k \<le> a then k else k - 1)"
    by (simp add: floor_log2_def nd k_def Let_def)
  show ?thesis using hi lo by (auto simp: fl)
qed

lemma powi2_less_imp:
  assumes "(2::rat) powi m < 2 powi n"
  shows "m < n"
proof (rule ccontr)
  assume "\<not> m < n"
  then have "(2::rat) powi n \<le> 2 powi m" by (intro power_int_increasing) auto
  with assms show False by simp
qed

lemma floor_log2_unique:
  assumes "0 < a" "2 powi e \<le> a" "a < 2 powi (e + 1)"
  shows "floor_log2 a = e"
proof -
  let ?f = "floor_log2 a"
  have b: "2 powi ?f \<le> a" "a < 2 powi (?f + 1)" using floor_log2_bounds[OF assms(1)] by auto
  have "(2::rat) powi e < 2 powi (?f + 1)" using assms(2) b(2) by simp
  then have 1: "e < ?f + 1" by (rule powi2_less_imp)
  have "(2::rat) powi ?f < 2 powi (e + 1)" using assms(3) b(1) by simp
  then have 2: "?f < e + 1" by (rule powi2_less_imp)
  show ?thesis using 1 2 by simp
qed


lemma round_half_even_of_int: "round_half_even (of_int m) = m"
  by (simp add: round_half_even_def)

lemma round_half_even_eqI:
  assumes "\<bar>r - of_int m\<bar> < 1 / 2 \<or> (\<bar>r - of_int m\<bar> = 1 / 2 \<and> even m)"
  shows "round_half_even r = m"
proof (cases "of_int m \<le> r")
  case True
  then have f: "\<lfloor>r\<rfloor> = m" using assms by (intro floor_unique) auto
  show ?thesis using assms True unfolding round_half_even_def Let_def f by auto
next
  case False
  then have f: "\<lfloor>r\<rfloor> = m - 1" using assms by (intro floor_unique) auto
  show ?thesis using assms False unfolding round_half_even_def Let_def f by auto
qed

lemma round64_pos_quantum:
  assumes "0 < x" "- 1074 \<le> q" "q = - 1074 \<or> 2 powi (q + 52) \<le> x" "x < 2 powi (q + 53)"
  shows "max (floor_log2 x - 52) (- 1074) = q"
proof (cases "2 powi (q + 52) \<le> x")
  case True
  have "floor_log2 x = q + 52"
    using assms(1) True assms(4) by (intro floor_log2_unique) (simp_all add: add.commute)
  then show ?thesis using assms(2) by simp
next
  case False
  then have q: "q = - 1074" using assms(3) by simp
  have "2 powi floor_log2 x \<le> x" using floor_log2_bounds[OF assms(1)] by simp
  then have "(2::rat) powi floor_log2 x < 2 powi (q + 52)" using False by simp
  then have "floor_log2 x < q + 52" by (rule powi2_less_imp)
  then show ?thesis using q by simp
qed

lemma round64_eq:
  assumes "0 < x" "- 1074 \<le> q" "q = - 1074 \<or> 2 powi (q + 52) \<le> x" "x < 2 powi (q + 53)"
    and "\<bar>x / 2 powi q - of_int m\<bar> < 1 / 2 \<or> (\<bar>x / 2 powi q - of_int m\<bar> = 1 / 2 \<and> even m)"
    and "of_int m * 2 powi q = y" "y < 2 powi 1024"
  shows "round64 x = Fin y"
proof -
  have q: "max (floor_log2 \<bar>x\<bar> - 52) (- 1074) = q"
    using round64_pos_quantum[OF assms(1-4)] assms(1) by simp
  have m: "round_half_even (x / 2 powi q) = m"
    using assms(5) by (rule round_half_even_eqI)
  show ?thesis
    using assms(1,6,7) m unfolding round64_def Let_def q by simp
qed

lemma unitCost_eq: "unitCost = Fin (5902958103587057 / 2 ^ 68)"
  unfolding unitCost_def
  by (rule round64_eq[where q = "- 68" and m = 5902958103587057])
     simp_all


lemma round_half_even_le:
  assumes "r \<le> of_int N"
  shows "round_half_even r \<le> N"
proof (cases "r = of_int N")
  case True
  then show ?thesis by (simp add: round_half_even_of_int)
next
  case False
  then have "r < of_int N" using assms by simp
  then have "\<lfloor>r\<rfloor> < N" by (simp add: floor_less_iff)
  then show ?thesis by (simp add: round_half_even_def Let_def)
qed

lemma round_half_even_ge:
  assumes "of_int N \<le> r"
  shows "N \<le> round_half_even r"
proof -
  have "N \<le> \<lfloor>r\<rfloor>" using assms by (simp add: le_floor_iff)
  then show ?thesis by (simp add: round_half_even_def Let_def)
qed

lemma round64_idem_pos:
  assumes "0 < x" and "round64 x = Fin y"
  shows "round64 y = Fin y"
proof -
  define e where "e = floor_log2 x"
  define q where "q = max (e - 52) (- 1074)"
  define m where "m = round_half_even (x / 2 powi q)"
  have y: "y = of_int m * 2 powi q" and fin: "y < 2 powi 1024"
    using assms unfolding round64_def Let_def e_def q_def m_def
    by (auto split: if_splits)
  have b: "2 powi e \<le> x" "x < 2 powi (e + 1)"
    using floor_log2_bounds[OF assms(1)] by (auto simp: e_def)
  have q_lo: "- 1074 \<le> q" and q_e: "e - 52 \<le> q" by (auto simp: q_def)
  have pq: "(0::rat) < 2 powi q" by simp
  have "x < 2 powi (q + 53)"
  proof -
    have "(2::rat) powi (e + 1) \<le> 2 powi (q + 53)"
      using q_e by (intro power_int_increasing) auto
    with b(2) show ?thesis by simp
  qed
  then have "x / 2 powi q < 2 powi (q + 53) / 2 powi q"
    using pq by (simp add: divide_strict_right_mono)
  also have "(2::rat) powi (q + 53) / 2 powi q = 2 ^ 53"
    by (simp add: power_int_add)
  finally have r_hi: "x / 2 powi q \<le> of_int (2 ^ 53)" by simp
  have m_hi: "m \<le> 2 ^ 53" unfolding m_def using r_hi by (rule round_half_even_le)
  have "of_int 0 \<le> x / 2 powi q" using assms(1) by simp
  then have m_lo: "0 \<le> m" unfolding m_def by (rule round_half_even_ge)
  consider "m = 0" | "0 < m" "m < 2 ^ 53" | "m = 2 ^ 53" using m_lo m_hi by linarith
  then show ?thesis
  proof cases
    case 1
    then show ?thesis by (simp add: y round64_def)
  next
    case 2
    have ypos: "0 < y" using 2(1) by (simp add: y)
    have lo: "q = - 1074 \<or> 2 powi (q + 52) \<le> y"
    proof (cases "q = - 1074")
      case False
      then have qe: "q = e - 52" by (auto simp: q_def)
      have "(2::rat) powi e / 2 powi q \<le> x / 2 powi q"
        using b(1) pq by (simp add: divide_right_mono)
      moreover have "(2::rat) powi e / 2 powi q = of_int (2 ^ 52)"
        by (simp add: qe power_int_diff)
      ultimately have "2 ^ 52 \<le> m" unfolding m_def by (intro round_half_even_ge) simp
      then have B: "(2::rat) ^ 52 \<le> of_int m"
        by (metis of_int_le_iff of_int_numeral of_int_power)
      have A: "(2::rat) powi (q + 52) = 2 ^ 52 * 2 powi q" by (simp add: power_int_add)
      have "(2::rat) ^ 52 * 2 powi q \<le> of_int m * 2 powi q"
        using B pq by (intro mult_right_mono) auto
      then show ?thesis unfolding y A by blast
    qed simp
    have B: "(of_int m :: rat) < 2 ^ 53"
      using 2(2) by (metis of_int_less_iff of_int_numeral of_int_power)
    have A: "(2::rat) powi (q + 53) = 2 ^ 53 * 2 powi q" by (simp add: power_int_add)
    have "(of_int m :: rat) * 2 powi q < 2 ^ 53 * 2 powi q"
      using B pq by (intro mult_strict_right_mono) auto
    then have hi: "y < 2 powi (q + 53)" unfolding y A by blast
    show ?thesis
      by (rule round64_eq[where q = q and m = m, OF ypos q_lo lo hi _ _ fin])
         (simp_all add: y)
  next
    case 3
    have y': "y = 2 powi (q + 53)" by (simp add: y 3 power_int_add)
    have ypos: "0 < y" by (simp add: y')
    have hi: "y < 2 powi (q + 1 + 53)"
      unfolding y' by (intro power_int_strict_increasing) auto
    have lo: "q + 1 = - 1074 \<or> 2 powi (q + 1 + 52) \<le> y" by (simp add: y' add.commute)
    have ql: "- 1074 \<le> q + 1" using q_lo by simp
    show ?thesis
      by (rule round64_eq[where q = "q + 1" and m = "2 ^ 52", OF ypos ql lo hi _ _ fin])
         (simp_all add: y' power_int_add)
  qed
qed

lemma round64_minus:
  "round64 (- x) = (case round64 x of Fin y \<Rightarrow> Fin (- y) | PosInf \<Rightarrow> NegInf | NegInf \<Rightarrow> PosInf | NaN \<Rightarrow> NaN)"
  by (cases "x = 0"; cases "x < 0") (auto simp: round64_def Let_def)

lemma round64_idem:
  assumes "round64 x = Fin y"
  shows "round64 y = Fin y"
proof -
  consider "x = 0" | "0 < x" | "x < 0" by linarith
  then show ?thesis
  proof cases
    case 1
    then show ?thesis using assms by (auto simp: round64_def)
  next
    case 2
    then show ?thesis using assms by (rule round64_idem_pos)
  next
    case 3
    then have p: "0 < - x" by simp
    have "round64 (- x) = Fin (- y)" using assms by (simp add: round64_minus)
    then have "round64 (- y) = Fin (- y)" by (rule round64_idem_pos[OF p])
    then show ?thesis by (simp add: round64_minus split: float64.splits)
  qed
qed

lemma round64_not_NaN: "round64 x \<noteq> NaN"
  by (simp add: round64_def Let_def)

lemma fadd64_zero_round64: "fadd64 (Fin 0) (round64 x) = round64 x"
  by (cases "round64 x") (auto simp: round64_idem)

lemma fadd64_zero_fmul64: "fadd64 (Fin 0) (fmul64 a b) = fmul64 a b"
proof (cases "fmul64 a b")
  case (Fin y)
  then obtain x where "round64 x = Fin y"
    by (auto simp: fmul64_def split: float64.splits if_splits)
  then show ?thesis using Fin by (simp add: round64_idem)
qed simp_all

lemma addCost_zero: "addCost fma (Fin 0) n = fmul64 (float64_of_int n) unitCost"
proof (cases "float64_of_int n")
  case (Fin a)
  then show ?thesis
    by (cases fma) (simp_all add: addCost_def fadd64_zero_fmul64 fadd64_zero_round64 unitCost_eq fmul64_def)
next
  case PosInf
  then show ?thesis
    by (cases fma) (simp_all add: addCost_def fadd64_zero_fmul64 fadd64_zero_round64 unitCost_eq fmul64_def)
next
  case NegInf
  then show ?thesis
    by (cases fma) (simp_all add: addCost_def fadd64_zero_fmul64 fadd64_zero_round64 unitCost_eq fmul64_def)
next
  case NaN
  then show ?thesis
    by (cases fma) (simp_all add: addCost_def fadd64_zero_fmul64 fadd64_zero_round64 unitCost_eq fmul64_def)
qed








lemma float64_of_int_17: "float64_of_int 17 = Fin 17"
  unfolding float64_of_int_def
  by (simp, rule round64_eq[where q = "- 48" and m = "17 * 2 ^ 48"], simp_all)

lemma float64_of_int_16: "float64_of_int 16 = Fin 16"
  unfolding float64_of_int_def
  by (simp, rule round64_eq[where q = "- 48" and m = "16 * 2 ^ 48"], simp_all)

lemma fmul64_17: "fmul64 (Fin 17) unitCost = Fin (6271892985061248 / 2 ^ 64)"
  unfolding unitCost_eq fmul64_def
  by (simp, rule round64_eq[where q = "- 64" and m = 6271892985061248], simp_all)

lemma fmul64_16: "fmul64 (Fin 16) unitCost = Fin (5902958103587057 / 2 ^ 64)"
  unfolding unitCost_eq fmul64_def
  by (simp, rule round64_eq[where q = "- 64" and m = 5902958103587057], simp_all)

subsection \<open>The statistics of a sequence of calls\<close>











subsection \<open>Bytes and characters\<close>

lemma RuneCountInString_ascii:
  assumes "\<forall>c \<in> set s. (of_char c :: nat) < 128"
  shows "RuneCountInString s = length s"
  using assms by (induction s) (simp_all add: Let_def)

text \<open>
  Claim C10. A cache miss adds the number of bytes of the text to \<open>CharsSent\<close>;
  for a text of ASCII bytes that is its number of characters. For the recipient
  \<open>U+00E9\<close> (two bytes) at hour 8 the greeting has 16 characters,
  \<open>CharsSent\<close> is 17, and \<open>CostEstimate\<close> exceeds the cost of 16 characters.
\<close>

theorem C10_chars_sent_counts_bytes:
  "(cacheLookup (cache g) text (language g) = None \<longrightarrow>
      CharsSent (stats (fst (snd (translateGreeting env text (g, w)))))
        = CharsSent (stats g) + int (length text))
   \<and> (cacheLookup (cache g) text (language g) = None
        \<and> (\<forall>c \<in> set text. (of_char c :: nat) < 128) \<longrightarrow>
      CharsSent (stats (fst (snd (translateGreeting env text (g, w)))))
        = CharsSent (stats g) + int (RuneCountInString text))
   \<and> RuneCountInString
        (getTimeBasedGreeting (testEnv 8 False False fma) (newTestGreeter [CHR 0xC3, CHR 0xA9] ''tmp'')) = 16
   \<and> CharsSent (stats (fst (run [OpSetLanguage ''es'', OpGreet (testEnv 8 False False fma)]
        (newTestGreeter [CHR 0xC3, CHR 0xA9] ''tmp'', testWorld ''tmp'')))) = 17
   \<and> CostEstimate (stats (fst (run [OpSetLanguage ''es'', OpGreet (testEnv 8 False False fma)]
        (newTestGreeter [CHR 0xC3, CHR 0xA9] ''tmp'', testWorld ''tmp'')))) = Fin (6271892985061248 / 2 ^ 64)
   \<and> fmul64 (float64_of_int 16) unitCost = Fin (5902958103587057 / 2 ^ 64)
   \<and> (5902958103587057 / 2 ^ 64 :: rat) < 6271892985061248 / 2 ^ 64"
proof -
  have a: "cacheLookup (cache g) text (language g) = None \<longrightarrow>
      CharsSent (stats (fst (snd (translateGreeting env text (g, w)))))
        = CharsSent (stats g) + int (length text)"
    by (simp add: translateGreeting_miss_stats countCall_def)
  have b: "RuneCountInString
        (getTimeBasedGreeting (testEnv 8 False False fma) (newTestGreeter [CHR 0xC3, CHR 0xA9] ''tmp'')) = 16"
    by (simp add: getTimeBasedGreeting_def test_defs Let_def continuation_def)
  have "stats (fst (run [OpSetLanguage ''es'', OpGreet (testEnv 8 False False fma)]
        (newTestGreeter [CHR 0xC3, CHR 0xA9] ''tmp'', testWorld ''tmp''))) =
     \<lparr>APICalls = 1, CharsSent = 17, CostEstimate = addCost fma (Fin 0) 17, CacheHits = 0\<rparr>"
    by (simp add: Greet_def translateGreeting_def Let_def test_defs saveCache_def
          countCall_def getTimeBasedGreeting_def)
  then have c: "stats (fst (run [OpSetLanguage ''es'', OpGreet (testEnv 8 False False fma)]
        (newTestGreeter [CHR 0xC3, CHR 0xA9] ''tmp'', testWorld ''tmp''))) =
     \<lparr>APICalls = 1, CharsSent = 17, CostEstimate = Fin (6271892985061248 / 2 ^ 64), CacheHits = 0\<rparr>"
    by (simp only: addCost_zero float64_of_int_17 fmul64_17)
  have c1: "CharsSent (stats (fst (run [OpSetLanguage ''es'', OpGreet (testEnv 8 False False fma)]
        (newTestGreeter [CHR 0xC3, CHR 0xA9] ''tmp'', testWorld ''tmp'')))) = 17"
    by (simp only: c Stats.simps)
  have c2: "CostEstimate (stats (fst (run [OpSetLanguage ''es'', OpGreet (testEnv 8 False False fma)]
        (newTestGreeter [CHR 0xC3, CHR 0xA9] ''tmp'', testWorld ''tmp'')))) = Fin (6271892985061248 / 2 ^ 64)"
    by (simp only: c Stats.simps)
  have d: "fmul64 (float64_of_int 16) unitCost = Fin (5902958103587057 / 2 ^ 64)"
    by (simp only: float64_of_int_16 fmul64_16)
  have e: "(5902958103587057 / 2 ^ 64 :: rat) < 6271892985061248 / 2 ^ 64"
    by simp
  have a2: "cacheLookup (cache g) text (language g) = None
        \<and> (\<forall>c \<in> set text. (of_char c :: nat) < 128) \<longrightarrow>
      CharsSent (stats (fst (snd (translateGreeting env text (g, w)))))
        = CharsSent (stats g) + int (RuneCountInString text)"
    using a by (simp add: RuneCountInString_ascii)
  show ?thesis
    by (rule conjI[OF a conjI[OF a2 conjI[OF b conjI[OF c1 conjI[OF c2 conjI[OF d e]]]]]])
qed

text \<open>The theorem at the greeting of the tests, 19 ASCII bytes.\<close>

theorem C10_chars_sent_counts_bytes_witness:
  "CharsSent (stats (fst (snd (translateGreeting (testEnv 8 False False False) ''Good morning, Test!''
       (SetLanguage ''es'' (newTestGreeter ''Test'' ''tmp''), testWorld ''tmp''))))) = 19
   \<and> RuneCountInString ''Good morning, Test!'' = 19"
proof -
  let ?g = "SetLanguage ''es'' (newTestGreeter ''Test'' ''tmp'')"
  have miss: "cacheLookup (cache ?g) ''Good morning, Test!'' (language ?g) = None"
    by (simp add: test_defs)
  have ascii: "\<forall>c \<in> set ''Good morning, Test!''. (of_char c :: nat) < 128" by simp
  have n: "RuneCountInString ''Good morning, Test!'' = 19" by (simp add: Let_def)
  show ?thesis
    using C10_chars_sent_counts_bytes [of ?g "''Good morning, Test!''" "testEnv 8 False False False"
        "testWorld ''tmp''" False] miss ascii n
    by (simp add: test_defs)
qed

subsection \<open>Loading the snapshot\<close>

text \<open>
  The claim C9 as stated fails for a snapshot that is JSON but does not fit the
  type of the cache: \<^verbatim>\<open>NewGreeter\<close> succeeds and logs the warning, but the cache
  holds the translation of \<open>a\<close> into \<open>b\<close> that was decoded before the
  mismatch, and the key \<open>d\<close> with a \<^verbatim>\<open>nil\<close> map.
\<close>

lemma mismatchedSnapshot_bytes:
  "mismatchedSnapshot =
     [CHR ''{'', CHR 0x22, CHR ''a'', CHR 0x22, CHR '':'', CHR ''{'', CHR 0x22, CHR ''b'', CHR 0x22,
      CHR '':'', CHR 0x22, CHR ''c'', CHR 0x22, CHR ''}'', CHR '','', CHR 0x22, CHR ''d'', CHR 0x22,
      CHR '':'', CHR ''1'', CHR ''}'']"
  by (simp add: mismatchedSnapshot_def appendString_def htmlSafe_def)

lemma Unmarshal_mismatchedSnapshot:
  "Unmarshal mismatchedSnapshot (Some []) =
     (Some (UnmarshalTypeError ''number''), Some [(''a'', Some [(''b'', ''c'')]), (''d'', None)])"
  unfolding mismatchedSnapshot_bytes by code_simp

theorem C9_counterexample:
  "\<not> isl (fst (NewGreeter testSetup ''Test'' (snapshotWorld mismatchedSnapshot)))
   \<and> logs (snd (NewGreeter testSetup ''Test'' (snapshotWorld mismatchedSnapshot)))
       = [LoadWarning (UnmarshalTypeError ''number'')]
   \<and> Translations (cache (projr (fst (NewGreeter testSetup ''Test'' (snapshotWorld mismatchedSnapshot)))))
       \<noteq> Some []
   \<and> cacheLookup (cache (projr (fst (NewGreeter testSetup ''Test'' (snapshotWorld mismatchedSnapshot)))))
        ''a'' ''b'' = Some ''c''"
  by (simp add: NewGreeter_def testSetup_def snapshotWorld_def Unmarshal_mismatchedSnapshot Let_def
        cacheLookup_def map_index_def)

text \<open>
  Claim C9, as amended. With its configuration present, \<^verbatim>\<open>NewGreeter\<close> always
  succeeds. Without a snapshot file the cache is empty and nothing is logged.
  With a snapshot that is not JSON, the warning is logged and the cache is
  empty. With a snapshot that is JSON, the cache is what \<^verbatim>\<open>json.Unmarshal\<close>
  stored, and its error, if any, is logged as a warning.
\<close>

theorem C9_snapshot_load:
  assumes "getenv su ''GOOGLE_CLOUD_PROJECT_ID'' \<noteq> []"
    and "getenv su ''GOOGLE_APPLICATION_CREDENTIALS'' \<noteq> []"
    and "NewTranslationClient su = None"
  shows "\<exists>g w'. NewGreeter su r w = (Inr g, w')
          \<and> (files w ''translation_cache.json'' = None \<longrightarrow>
                Translations (cache g) = Some [] \<and> w' = w)
          \<and> (\<forall>data. files w ''translation_cache.json'' = Some data \<longrightarrow>
                Translations (cache g) = snd (Unmarshal data (Some []))
                \<and> (parse data = None \<longrightarrow>
                      Translations (cache g) = Some []
                      \<and> w' = w\<lparr>logs := logs w @ [LoadWarning SyntaxError]\<rparr>)
                \<and> (\<forall>e. fst (Unmarshal data (Some [])) = Some e \<longrightarrow>
                      w' = w\<lparr>logs := logs w @ [LoadWarning e]\<rparr>)
                \<and> (fst (Unmarshal data (Some [])) = None \<longrightarrow> w' = w))"
  using assms
  by (cases "files w ''translation_cache.json''")
     (auto simp: NewGreeter_def Let_def Unmarshal_def split: prod.splits option.splits)

text \<open>The theorem without a file, with the snapshot \<^verbatim>\<open>{\<close> and with the
  mismatched snapshot.\<close>

theorem C9_snapshot_load_witness:
  "(\<exists>g. NewGreeter testSetup ''Test'' \<lparr>files = Map.empty, logs = [], calls = [], writes = []\<rparr>
          = (Inr g, \<lparr>files = Map.empty, logs = [], calls = [], writes = []\<rparr>)
        \<and> Translations (cache g) = Some [])
   \<and> (\<exists>g. NewGreeter testSetup ''Test'' (snapshotWorld ''{'')
          = (Inr g, (snapshotWorld ''{'')\<lparr>logs := [LoadWarning SyntaxError]\<rparr>)
        \<and> Translations (cache g) = Some [])
   \<and> (\<exists>g. NewGreeter testSetup ''Test'' (snapshotWorld mismatchedSnapshot)
          = (Inr g, (snapshotWorld mismatchedSnapshot)\<lparr>logs := [LoadWarning (UnmarshalTypeError ''number'')]\<rparr>)
        \<and> Translations (cache g) = Some [(''a'', Some [(''b'', ''c'')]), (''d'', None)])"
proof -
  have cfg: "getenv testSetup ''GOOGLE_CLOUD_PROJECT_ID'' \<noteq> []"
    "getenv testSetup ''GOOGLE_APPLICATION_CREDENTIALS'' \<noteq> []"
    "NewTranslationClient testSetup = None"
    by (simp_all add: testSetup_def)
  have p: "parse ''{'' = None" by code_simp
  show ?thesis
    using C9_snapshot_load [OF cfg, of "''Test''" "\<lparr>files = Map.empty, logs = [], calls = [], writes = []\<rparr>"]
      C9_snapshot_load [OF cfg, of "''Test''" "snapshotWorld ''{''"]
      C9_snapshot_load [OF cfg, of "''Test''" "snapshotWorld mismatchedSnapshot"]
      p Unmarshal_mismatchedSnapshot
    by (auto simp: snapshotWorld_def)
qed

subsection \<open>UTF-8: encoding what was decoded\<close>

lemma AppendRune_ascii: "r < 0x80 \<Longrightarrow> AppendRune r = [char_of r]"
  by (simp add: AppendRune_def)

lemma DecodeRune_valid_cases:
  assumes "DecodeRuneInString (c # s) = (r, n)" and "\<not> (r = RuneError \<and> n = 1)"
    and "0x80 \<le> (of_char c :: nat)"
  obtains
    (two) c1 s' where "s = c1 # s'" "n = 2" "0xC2 \<le> (of_char c :: nat)" "(of_char c :: nat) \<le> 0xDF"
      "continuation c1" "r = (of_char c mod 32) * 64 + of_char c1 mod 64"
  | (three) c1 c2 s' where "s = c1 # c2 # s'" "n = 3" "0xE0 \<le> (of_char c :: nat)" "(of_char c :: nat) \<le> 0xEF"
      "(if (of_char c :: nat) = 0xE0 then 0xA0 else 0x80) \<le> (of_char c1 :: nat)"
      "(of_char c1 :: nat) \<le> (if (of_char c :: nat) = 0xED then 0x9F else 0xBF)"
      "continuation c2"
      "r = (of_char c mod 16) * 4096 + (of_char c1 mod 64) * 64 + of_char c2 mod 64"
  | (four) c1 c2 c3 s' where "s = c1 # c2 # c3 # s'" "n = 4" "0xF0 \<le> (of_char c :: nat)" "(of_char c :: nat) \<le> 0xF4"
      "(if (of_char c :: nat) = 0xF0 then 0x90 else 0x80) \<le> (of_char c1 :: nat)"
      "(of_char c1 :: nat) \<le> (if (of_char c :: nat) = 0xF4 then 0x8F else 0xBF)"
      "continuation c2" "continuation c3"
      "r = (of_char c mod 8) * 262144 + (of_char c1 mod 64) * 4096
             + (of_char c2 mod 64) * 64 + of_char c3 mod 64"
proof -
  let ?b = "of_char c :: nat"
  consider "0xC2 \<le> ?b \<and> ?b \<le> 0xDF" | "0xE0 \<le> ?b \<and> ?b \<le> 0xEF" | "0xF0 \<le> ?b \<and> ?b \<le> 0xF4"
    | "\<not> (0xC2 \<le> ?b \<and> ?b \<le> 0xDF) \<and> \<not> (0xE0 \<le> ?b \<and> ?b \<le> 0xEF) \<and> \<not> (0xF0 \<le> ?b \<and> ?b \<le> 0xF4)"
    by blast
  then show thesis
  proof cases
    case 1
    then show ?thesis
      using assms two
      by (cases s) (auto simp: Let_def split: if_splits)
  next
    case 2
    then have nb: "\<not> (0xC2 \<le> ?b \<and> ?b \<le> 0xDF)" by simp
    show ?thesis
    proof (cases s)
      case Nil
      then show ?thesis using assms 2 nb by (auto simp: Let_def)
    next
      case (Cons c1 t)
      show ?thesis
      proof (cases t)
        case Nil
        then show ?thesis using assms 2 nb Cons by (auto simp: Let_def)
      next
        case (Cons c2 s')
        then show ?thesis
          using assms 2 nb \<open>s = c1 # t\<close> three[of c1 c2 s']
          by (simp add: Let_def split: if_splits)
      qed
    qed
  next
    case 3
    then have nb: "\<not> (0xC2 \<le> ?b \<and> ?b \<le> 0xDF)" "\<not> (0xE0 \<le> ?b \<and> ?b \<le> 0xEF)" by simp_all
    show ?thesis
    proof (cases s)
      case Nil
      then show ?thesis using assms 3 nb by (auto simp: Let_def)
    next
      case (Cons c1 t)
      note s = this
      show ?thesis
      proof (cases t)
        case Nil
        then show ?thesis using assms 3 nb s by (auto simp: Let_def)
      next
        case (Cons c2 u)
        note t = this
        show ?thesis
        proof (cases u)
          case Nil
          then show ?thesis using assms 3 nb s t by (auto simp: Let_def)
        next
          case (Cons c3 s')
          then show ?thesis
            using assms 3 nb s t four[of c1 c2 c3 s']
            by (simp add: Let_def split: if_splits)
        qed
      qed
    qed
  next
    case 4
    then show ?thesis using assms by (auto simp: Let_def)
  qed
qed

lemma mod_offset: "x < n \<Longrightarrow> (q * n + x) mod n = (x::nat)"
  by simp

lemma div_offset: "x < n \<Longrightarrow> (q * n + x) div n = (q::nat)"
  by simp

lemma two_bytes:
  fixes b0 b1 :: nat
  assumes "194 \<le> b0" "b0 \<le> 223" "128 \<le> b1" "b1 \<le> 191"
  defines "r \<equiv> (b0 mod 32) * 64 + b1 mod 64"
  shows "127 < r" "r \<le> 2047" "192 + r div 64 = b0" "128 + r mod 64 = b1"
proof -
  define x where "x = b0 - 192"
  define y where "y = b1 - 128"
  have b0: "b0 = 192 + x" and x: "2 \<le> x" "x < 32" using assms(1,2) by (simp_all add: x_def)
  have b1: "b1 = 128 + y" and y: "y < 64" using assms(3,4) by (simp_all add: y_def)
  have "b0 mod 32 = x" using mod_offset[of x 32 6] x by (simp add: b0)
  moreover have "b1 mod 64 = y" using mod_offset[of y 64 2] y by (simp add: b1)
  ultimately have r: "r = x * 64 + y" by (simp add: r_def)
  have d: "r div 64 = x" using div_offset[of y 64 x] y by (simp add: r)
  have m: "r mod 64 = y" using mod_offset[of y 64 x] y by (simp add: r)
  show "127 < r" "r \<le> 2047" using x y by (simp_all add: r)
  show "192 + r div 64 = b0" "128 + r mod 64 = b1" by (simp_all add: d m b0 b1)
qed

lemma three_bytes:
  fixes b0 b1 b2 :: nat
  assumes "224 \<le> b0" "b0 \<le> 239"
    "(if b0 = 224 then 160 else 128) \<le> b1" "b1 \<le> (if b0 = 237 then 159 else 191)"
    "128 \<le> b2" "b2 \<le> 191"
  defines "r \<equiv> (b0 mod 16) * 4096 + (b1 mod 64) * 64 + b2 mod 64"
  shows "2047 < r" "r \<le> 65535" "\<not> (55296 \<le> r \<and> r \<le> 57343)"
    "224 + r div 4096 = b0" "128 + (r div 64) mod 64 = b1" "128 + r mod 64 = b2"
proof -
  define x where "x = b0 - 224"
  define y where "y = b1 - 128"
  define z where "z = b2 - 128"
  have b0: "b0 = 224 + x" and x: "x < 16" using assms(1,2) by (simp_all add: x_def)
  have b1: "b1 = 128 + y" and y: "y < 64" using assms(3,4) by (auto simp: y_def split: if_splits)
  have b2: "b2 = 128 + z" and z: "z < 64" using assms(5,6) by (simp_all add: z_def)
  have y0: "x = 0 \<Longrightarrow> 32 \<le> y" using assms(3) by (simp add: b0 b1)
  have y13: "x = 13 \<Longrightarrow> y \<le> 31" using assms(4) by (simp add: b0 b1)
  have "b0 mod 16 = x" using mod_offset[of x 16 14] x by (simp add: b0)
  moreover have "b1 mod 64 = y" using mod_offset[of y 64 2] y by (simp add: b1)
  moreover have "b2 mod 64 = z" using mod_offset[of z 64 2] z by (simp add: b2)
  ultimately have r: "r = x * 4096 + y * 64 + z" by (simp add: r_def)
  have yz: "y * 64 + z < 4096" using y z by simp
  have r1: "r = (x * 64 + y) * 64 + z" by (simp add: r)
  have r2: "r = x * 4096 + (y * 64 + z)" by (simp add: r)
  have d1: "r div 4096 = x" using div_offset[of "y * 64 + z" 4096 x] yz by (simp add: r2)
  have d2: "r div 64 = x * 64 + y" using div_offset[of z 64 "x * 64 + y"] z by (simp add: r1)
  have d3: "(r div 64) mod 64 = y" using mod_offset[of y 64 x] y by (simp add: d2)
  have m: "r mod 64 = z" using mod_offset[of z 64 "x * 64 + y"] z by (simp add: r1)
  show "2047 < r" using y0 x y z by (cases "x = 0") (simp_all add: r)
  show "r \<le> 65535" using x y z by (simp add: r)
  show "\<not> (55296 \<le> r \<and> r \<le> 57343)"
  proof (cases "x = 13")
    case True
    then show ?thesis using y13 z by (simp add: r)
  next
    case False
    then consider "x \<le> 12" | "14 \<le> x" by linarith
    then show ?thesis using y z by cases (simp_all add: r)
  qed
  show "224 + r div 4096 = b0" "128 + (r div 64) mod 64 = b1" "128 + r mod 64 = b2"
    by (simp_all add: d1 d3 m b0 b1 b2)
qed

lemma four_bytes:
  fixes b0 b1 b2 b3 :: nat
  assumes "240 \<le> b0" "b0 \<le> 244"
    "(if b0 = 240 then 144 else 128) \<le> b1" "b1 \<le> (if b0 = 244 then 143 else 191)"
    "128 \<le> b2" "b2 \<le> 191" "128 \<le> b3" "b3 \<le> 191"
  defines "r \<equiv> (b0 mod 8) * 262144 + (b1 mod 64) * 4096 + (b2 mod 64) * 64 + b3 mod 64"
  shows "65535 < r" "r \<le> 1114111"
    "240 + r div 262144 = b0" "128 + (r div 4096) mod 64 = b1"
    "128 + (r div 64) mod 64 = b2" "128 + r mod 64 = b3"
proof -
  define x where "x = b0 - 240"
  define y where "y = b1 - 128"
  define z where "z = b2 - 128"
  define u where "u = b3 - 128"
  have b0: "b0 = 240 + x" and x: "x \<le> 4" using assms(1,2) by (simp_all add: x_def)
  have b1: "b1 = 128 + y" and y: "y < 64" using assms(3,4) by (auto simp: y_def split: if_splits)
  have b2: "b2 = 128 + z" and z: "z < 64" using assms(5,6) by (simp_all add: z_def)
  have b3: "b3 = 128 + u" and u: "u < 64" using assms(7,8) by (simp_all add: u_def)
  have y0: "x = 0 \<Longrightarrow> 16 \<le> y" using assms(3) by (simp add: b0 b1)
  have y4: "x = 4 \<Longrightarrow> y \<le> 15" using assms(4) by (simp add: b0 b1)
  have "b0 mod 8 = x" using mod_offset[of x 8 30] x by (simp add: b0)
  moreover have "b1 mod 64 = y" using mod_offset[of y 64 2] y by (simp add: b1)
  moreover have "b2 mod 64 = z" using mod_offset[of z 64 2] z by (simp add: b2)
  moreover have "b3 mod 64 = u" using mod_offset[of u 64 2] u by (simp add: b3)
  ultimately have r: "r = x * 262144 + y * 4096 + z * 64 + u" by (simp add: r_def)
  have r1: "r = ((x * 64 + y) * 64 + z) * 64 + u" by (simp add: r)
  have r2: "r = (x * 64 + y) * 4096 + (z * 64 + u)" by (simp add: r)
  have r3: "r = x * 262144 + (y * 4096 + z * 64 + u)" by (simp add: r)
  have zu: "z * 64 + u < 4096" using z u by simp
  have yzu: "y * 4096 + z * 64 + u < 262144" using y z u by simp
  have d1: "r div 262144 = x" using div_offset[of "y * 4096 + z * 64 + u" 262144 x] yzu by (simp add: r3)
  have d2: "r div 4096 = x * 64 + y" using div_offset[of "z * 64 + u" 4096 "x * 64 + y"] zu by (simp add: r2)
  have d2m: "(r div 4096) mod 64 = y" using mod_offset[of y 64 x] y by (simp add: d2)
  have d3: "r div 64 = (x * 64 + y) * 64 + z" using div_offset[of u 64 "(x * 64 + y) * 64 + z"] u by (simp add: r1)
  have d3m: "(r div 64) mod 64 = z" using mod_offset[of z 64 "x * 64 + y"] z by (simp add: d3)
  have m: "r mod 64 = u" using mod_offset[of u 64 "(x * 64 + y) * 64 + z"] u by (simp add: r1)
  show "65535 < r" using y0 by (cases "x = 0") (simp_all add: r)
  show "r \<le> 1114111"
  proof (cases "x = 4")
    case True
    then show ?thesis using y4 z u by (simp add: r)
  next
    case False
    then have "x \<le> 3" using x by simp
    then show ?thesis using y z u by (simp add: r)
  qed
  show "240 + r div 262144 = b0" "128 + (r div 4096) mod 64 = b1"
    "128 + (r div 64) mod 64 = b2" "128 + r mod 64 = b3"
    by (simp_all add: d1 d2m d3m m b0 b1 b2 b3)
qed

lemma decode_encode:
  assumes "DecodeRuneInString (c # s) = (r, n)" and "\<not> (r = RuneError \<and> n = 1)"
    and "0x80 \<le> (of_char c :: nat)"
  shows "AppendRune r = c # take (n - 1) s \<and> n - 1 \<le> length s \<and> 1 < n
         \<and> DecodeRuneInString (c # take (n - 1) s @ X) = (r, n)"
  using assms
proof (cases rule: DecodeRune_valid_cases)
  case (two c1 s')
  note f = two_bytes[of "of_char c" "of_char c1", folded two(6)]
  have c1: "128 \<le> (of_char c1 :: nat)" "(of_char c1 :: nat) \<le> 191"
    using two(5) by (simp_all add: continuation_def)
  have a: "AppendRune r = [c, c1]"
    using f[OF _ _ c1] two(3,4) by (simp add: AppendRune_def)
  have d: "DecodeRuneInString (c # c1 # X) = (r, 2)"
    using two by (simp add: Let_def)
  show ?thesis using a d two(1,2) by simp
next
  case (three c1 c2 s')
  have c2: "128 \<le> (of_char c2 :: nat)" "(of_char c2 :: nat) \<le> 191"
    using three(7) by (simp_all add: continuation_def)
  note f = three_bytes[of "of_char c" "of_char c1" "of_char c2", folded three(8),
      OF _ _ three(5,6) c2]
  have a: "AppendRune r = [c, c1, c2]"
    using f three(3,4) by (auto simp: AppendRune_def)
  have d: "DecodeRuneInString (c # c1 # c2 # X) = (r, 3)"
    using three by (simp add: Let_def)
  show ?thesis using a d three(1,2) by simp
next
  case (four c1 c2 c3 s')
  have c2: "128 \<le> (of_char c2 :: nat)" "(of_char c2 :: nat) \<le> 191"
    using four(7) by (simp_all add: continuation_def)
  have c3: "128 \<le> (of_char c3 :: nat)" "(of_char c3 :: nat) \<le> 191"
    using four(8) by (simp_all add: continuation_def)
  note f = four_bytes[of "of_char c" "of_char c1" "of_char c2" "of_char c3", folded four(9),
      OF _ _ four(5,6) c2 c3]
  have a: "AppendRune r = [c, c1, c2, c3]"
    using f four(3,4) by (auto simp: AppendRune_def)
  have d: "DecodeRuneInString (c # c1 # c2 # c3 # X) = (r, 4)"
    using four by (simp add: Let_def)
  show ?thesis using a d four(1,2) by simp
qed

subsection \<open>A string literal read back\<close>

lemma hexval_hex: "n < 16 \<Longrightarrow> hexval (hex n) = Some n"
proof -
  have "\<forall>n \<in> set [0..<16]. hexval (hex n) = Some n" by code_simp
  then show "n < 16 \<Longrightarrow> hexval (hex n) = Some n" by simp
qed

lemma char_eqI:
  assumes "(of_char c :: nat) = of_char d"
  shows "c = d"
  using assms by simp

lemma scan_string_step:
  assumes "c \<noteq> CHR 0x22" and "string_item c cs = Some (out, t)"
  shows "scan_string (c # cs) = prepend out (scan_string t)"
  using assms by simp

lemma scan_safe:
  assumes "htmlSafe (of_char c)"
  shows "scan_string (c # X) = prepend [c] (scan_string X)"
proof -
  have ne: "c \<noteq> CHR 0x22" "c \<noteq> CHR 0x5C" using assms by (auto simp: htmlSafe_def)
  have "string_item c X = Some ([c], X)"
    using assms ne by (auto simp: string_item_def htmlSafe_def)
  then show ?thesis using ne by simp
qed

lemma scan_escape:
  assumes "(of_char c :: nat) < 0x80" and "\<not> htmlSafe (of_char c)"
  shows "scan_string (escapeByte (of_char c) @ X) = prepend [c] (scan_string X)"
proof -
  let ?b = "of_char c :: nat"
  consider "?b = 0x5C \<or> ?b = 0x22" | "?b = 0x08" | "?b = 0x0C" | "?b = 0x0A" | "?b = 0x0D"
    | "?b = 0x09"
    | "?b \<noteq> 0x5C" "?b \<noteq> 0x22" "?b \<noteq> 0x08" "?b \<noteq> 0x0C" "?b \<noteq> 0x0A" "?b \<noteq> 0x0D" "?b \<noteq> 0x09"
    by blast
  then show ?thesis
  proof cases
    case 1
    then have e: "escapeByte ?b = [CHR 0x5C, c]" by (auto simp: escapeByte_def)
    have cc: "c = CHR 0x5C \<or> c = CHR 0x22"
      using 1 char_eqI[of c "CHR 0x5C"] char_eqI[of c "CHR 0x22"] by auto
    then have "string_item (CHR 0x5C) (c # X) = Some ([c], X)"
      by (auto simp: string_item_def unescape_def)
    then show ?thesis unfolding e by simp
  next
    case 2
    then have e: "escapeByte ?b = [CHR 0x5C, CHR ''b'']" by (simp add: escapeByte_def)
    have cc: "c = CHR 0x08" using 2 by (intro char_eqI) simp
    have "string_item (CHR 0x5C) (CHR ''b'' # X) = Some ([c], X)"
      by (simp add: string_item_def unescape_def cc)
    then show ?thesis unfolding e by simp
  next
    case 3
    then have e: "escapeByte ?b = [CHR 0x5C, CHR ''f'']" by (simp add: escapeByte_def)
    have cc: "c = CHR 0x0C" using 3 by (intro char_eqI) simp
    have "string_item (CHR 0x5C) (CHR ''f'' # X) = Some ([c], X)"
      by (simp add: string_item_def unescape_def cc)
    then show ?thesis unfolding e by simp
  next
    case 4
    then have e: "escapeByte ?b = [CHR 0x5C, CHR ''n'']" by (simp add: escapeByte_def)
    have cc: "c = CHR 0x0A" using 4 by (intro char_eqI) simp
    have "string_item (CHR 0x5C) (CHR ''n'' # X) = Some ([c], X)"
      by (simp add: string_item_def unescape_def cc)
    then show ?thesis unfolding e by simp
  next
    case 5
    then have e: "escapeByte ?b = [CHR 0x5C, CHR ''r'']" by (simp add: escapeByte_def)
    have cc: "c = CHR 0x0D" using 5 by (intro char_eqI) simp
    have "string_item (CHR 0x5C) (CHR ''r'' # X) = Some ([c], X)"
      by (simp add: string_item_def unescape_def cc)
    then show ?thesis unfolding e by simp
  next
    case 6
    then have e: "escapeByte ?b = [CHR 0x5C, CHR ''t'']" by (simp add: escapeByte_def)
    have cc: "c = CHR 0x09" using 6 by (intro char_eqI) simp
    have "string_item (CHR 0x5C) (CHR ''t'' # X) = Some ([c], X)"
      by (simp add: string_item_def unescape_def cc)
    then show ?thesis unfolding e by simp
  next
    case 7
    then have e: "escapeByte ?b =
        [CHR 0x5C, CHR ''u'', CHR ''0'', CHR ''0'', hex (?b div 16), hex (?b mod 16)]"
      by (simp add: escapeByte_def)
    have d: "?b div 16 < 16" using assms(1) by simp
    have g: "getu4 (CHR 0x5C # CHR ''u'' # CHR ''0'' # CHR ''0'' # hex (?b div 16) # hex (?b mod 16) # X)
               = Some ?b"
      using hexval_hex[OF d] hexval_hex[of "?b mod 16"]
      by (simp add: hexval_def)
    have "string_item (CHR 0x5C)
            (CHR ''u'' # CHR ''0'' # CHR ''0'' # hex (?b div 16) # hex (?b mod 16) # X)
          = Some ([c], X)"
      using assms(1) by (simp add: string_item_def g AppendRune_def del: getu4.simps)
    then show ?thesis unfolding e by simp
  qed
qed

lemma prepend_Some: "prepend xs (Some (s, rest)) = Some (xs @ s, rest)"
  by (simp add: prepend_def)

lemma scan_line_separator:
  assumes "r = 0x2028 \<or> r = 0x2029"
  shows "string_item (CHR 0x5C) (CHR ''u'' # CHR ''2'' # CHR ''0'' # CHR ''2'' # hex (r mod 16) # X)
           = Some (AppendRune r, X)"
proof -
  have h: "hexval (hex (r mod 16)) = Some (r mod 16)" by (rule hexval_hex) simp
  have g: "getu4 (CHR 0x5C # CHR ''u'' # CHR ''2'' # CHR ''0'' # CHR ''2'' # hex (r mod 16) # X) = Some r"
    using assms h by (auto simp: hexval_def)
  show ?thesis
    using assms by (auto simp: string_item_def g simp del: getu4.simps)
qed

lemma scan_appendStringBody:
  "ValidString s \<Longrightarrow> scan_string (appendStringBody s @ CHR 0x22 # rest) = Some (s, rest)"
proof (induction "length s" arbitrary: s rule: less_induct)
  case less
  show ?case
  proof (cases s)
    case Nil
    then show ?thesis by simp
  next
    case (Cons c cs)
    let ?b = "of_char c :: nat"
    show ?thesis
    proof (cases "?b < 0x80")
      case True
      have v: "ValidString cs" using less.prems Cons True by (simp add: Let_def)
      have IH: "scan_string (appendStringBody cs @ CHR 0x22 # rest) = Some (cs, rest)"
        using less.hyps[of cs] v Cons by simp
      have a: "appendStringBody (c # cs) =
                 (if htmlSafe ?b then [c] else escapeByte ?b) @ appendStringBody cs"
        using True by (simp add: Let_def)
      show ?thesis
      proof (cases "htmlSafe ?b")
        case True
        then show ?thesis
          unfolding Cons a using scan_safe[of c "appendStringBody cs @ CHR 0x22 # rest"] IH
          by (simp add: prepend_Some)
      next
        case False
        then show ?thesis
          unfolding Cons a
          using scan_escape[OF True False, of "appendStringBody cs @ CHR 0x22 # rest"] IH
          by (simp add: prepend_Some)
      qed
    next
      case False
      obtain r n where d: "DecodeRuneInString (c # cs) = (r, n)"
        by (cases "DecodeRuneInString (c # cs)")
      have ok: "\<not> (r = RuneError \<and> n = 1)" and v: "ValidString (drop (n - 1) cs)"
        using less.prems Cons d by (simp_all add: Let_def del: DecodeRuneInString.simps)
      have hi: "0x80 \<le> ?b" using False by simp
      let ?Y = "appendStringBody (drop (n - 1) cs) @ CHR 0x22 # rest"
      note de = decode_encode[OF d ok hi, of ?Y]
      have IH: "scan_string ?Y = Some (drop (n - 1) cs, rest)"
        using less.hyps[of "drop (n - 1) cs"] v Cons by simp
      have cq: "c \<noteq> CHR 0x22" "c \<noteq> CHR 0x5C" using False by auto
      show ?thesis
      proof (cases "r = 0x2028 \<or> r = 0x2029")
        case True
        have a: "appendStringBody (c # cs) =
                   [CHR 0x5C, CHR ''u'', CHR ''2'', CHR ''0'', CHR ''2'', hex (r mod 16)]
                     @ appendStringBody (drop (n - 1) cs)"
          using False d ok True by (simp add: Let_def del: DecodeRuneInString.simps)
        have "scan_string (appendStringBody (c # cs) @ CHR 0x22 # rest)
                = prepend (AppendRune r) (scan_string ?Y)"
          unfolding a using scan_line_separator[OF True, of ?Y] by simp
        also have "\<dots> = Some (c # take (n - 1) cs @ drop (n - 1) cs, rest)"
          using de IH by (simp add: prepend_Some)
        finally show ?thesis using Cons by simp
      next
        case nls: False
        have a: "appendStringBody (c # cs) =
                   c # take (n - 1) cs @ appendStringBody (drop (n - 1) cs)"
          using False d ok nls by (simp add: Let_def del: DecodeRuneInString.simps)
        have it: "string_item c (take (n - 1) cs @ ?Y) = Some (c # take (n - 1) cs, ?Y)"
          using False cq de
          by (simp add: string_item_def del: DecodeRuneInString.simps)
        have "scan_string (appendStringBody (c # cs) @ CHR 0x22 # rest)
                = prepend (c # take (n - 1) cs) (scan_string ?Y)"
          unfolding a using cq it by simp
        also have "\<dots> = Some (c # take (n - 1) cs @ drop (n - 1) cs, rest)"
          using IH by (simp add: prepend_Some)
        finally show ?thesis using Cons by simp
      qed
    qed
  qed
qed

subsection \<open>The tokens of a snapshot\<close>

lemma pre_Nil [simp]: "pre [] r = r"
  by (cases r) (simp_all add: pre_def)

lemma pre_pre: "pre a (pre b r) = pre (a @ b) r"
  by (cases r) (simp_all add: pre_def)

lemma cons_token_pre: "cons_token t r = pre [t] r"
  by (cases r) (simp_all add: cons_token_def pre_def)

lemma lex_space: "isSpace c \<Longrightarrow> lex (c # X) = lex X"
  by (simp add: next_token_def)

lemma lex_spaces: "lex (replicate n CHR '' '' @ X) = lex X"
  by (induction n) (simp_all add: lex_space isSpace_def del: lex.simps)

lemma lex_newline: "lex (newline d @ X) = lex X"
  by (simp add: newline_def lex_space lex_spaces isSpace_def del: lex.simps)

lemma lex_lbrace: "lex (CHR ''{'' # X) = pre [LBrace] (lex X)"
  by (simp add: next_token_def isSpace_def cons_token_pre)

lemma lex_rbrace: "lex (CHR ''}'' # X) = pre [RBrace] (lex X)"
  by (simp add: next_token_def isSpace_def cons_token_pre)

lemma lex_comma: "lex (CHR '','' # X) = pre [Comma] (lex X)"
  by (simp add: next_token_def isSpace_def cons_token_pre)

lemma lex_colon_space: "lex (CHR '':'' # CHR '' '' # X) = pre [Colon] (lex X)"
  by (simp add: next_token_def isSpace_def cons_token_pre)

lemma lex_null: "lex (''null'' @ X) = pre [TNull] (lex X)"
  by (simp add: next_token_def isSpace_def digit_def cons_token_pre)

lemma lex_appendString:
  assumes "ValidString k"
  shows "lex (appendString k @ X) = pre [TString k] (lex X)"
  using scan_appendStringBody[OF assms, of X]
  by (simp add: appendString_def next_token_def isSpace_def cons_token_pre)

lemma lex_members:
  assumes "\<forall>(k, v) \<in> set kvs. ValidString k \<and> lexes enc tv v"
  shows "lex (members d enc kvs @ X) = pre (member_tokens tv kvs) (lex X)"
  using assms
proof (induction d enc kvs rule: members.induct)
  case (1 depth enc)
  then show ?case by simp
next
  case (2 depth enc k v)
  then have k: "ValidString k" and v: "\<And>Y. lex (enc v @ Y) = pre (tv v) (lex Y)"
    by (auto simp: lexes_def)
  show ?case
    by (simp add: lex_appendString[OF k] lex_colon_space v pre_pre del: lex.simps)
next
  case (3 depth enc k v kv kvs)
  then have k: "ValidString k" and v: "\<And>Y. lex (enc v @ Y) = pre (tv v) (lex Y)"
    by (auto simp: lexes_def)
  have IH: "lex (members depth enc (kv # kvs) @ X) = pre (member_tokens tv (kv # kvs)) (lex X)"
    using 3 by simp
  have "lex (members depth enc ((k, v) # kv # kvs) @ X) =
          lex (appendString k @ (CHR '':'' # CHR '' '' # (enc v @ (CHR '','' #
                (newline depth @ (members depth enc (kv # kvs) @ X))))))"
    by simp
  also have "\<dots> = pre [TString k] (pre [Colon] (pre (tv v) (pre [Comma]
                (lex (members depth enc (kv # kvs) @ X)))))"
    by (simp only: lex_appendString[OF k] lex_colon_space v lex_comma lex_newline)
  also have "\<dots> = pre (member_tokens tv ((k, v) # kv # kvs)) (lex X)"
    by (simp add: IH pre_pre del: lex.simps)
  finally show ?case .
qed

lemma lexes_appendString: "ValidString v \<Longrightarrow> lexes appendString (\<lambda>v. [TString v]) v"
  by (simp add: lexes_def lex_appendString del: lex.simps)

lemma lexes_encodeMap:
  assumes "case m of None \<Rightarrow> True | Some al \<Rightarrow> \<forall>(k, v) \<in> set al. ValidString k \<and> lexes enc tv v"
  shows "lexes (encodeMap d enc) (map_tokens tv) m"
proof (cases m)
  case None
  then show ?thesis
    using lex_null by (simp add: lexes_def encodeMap_def map_tokens_def del: lex.simps)
next
  case (Some al)
  show ?thesis
  proof (cases al)
    case Nil
    then show ?thesis
      using Some
      by (simp add: lexes_def encodeMap_def map_tokens_def lex_lbrace lex_rbrace pre_pre
               del: lex.simps)
  next
    case (Cons x xs)
    have kv: "\<forall>(k, v) \<in> set (sort_key fst al). ValidString k \<and> lexes enc tv v"
      using assms Some by simp
    have "lex (encodeMap d enc m @ X) = pre (map_tokens tv m) (lex X)" for X
    proof -
      have "lex (encodeMap d enc m @ X) =
              lex (CHR ''{'' # (newline (Suc d) @ (members (Suc d) enc (sort_key fst al)
                     @ (newline d @ (CHR ''}'' # X)))))"
        using Some Cons by (simp add: encodeMap_def del: lex.simps)
      also have "\<dots> = pre [LBrace] (pre (member_tokens tv (sort_key fst al)) (pre [RBrace] (lex X)))"
        by (simp only: lex_lbrace lex_newline lex_members[OF kv] lex_rbrace)
      also have "\<dots> = pre (map_tokens tv m) (lex X)"
        using Some by (simp add: map_tokens_def pre_pre)
      finally show ?thesis .
    qed
    then show ?thesis by (simp add: lexes_def del: lex.simps)
  qed
qed

lemma lexes_inner:
  assumes "validInner im"
  shows "lexes (encodeMap d appendString) (map_tokens (\<lambda>v. [TString v])) im"
  using assms
  by (intro lexes_encodeMap) (auto simp: validInner_def lexes_appendString split: option.splits)

lemma lex_MarshalIndent:
  assumes "validTranslations m"
  shows "lex (MarshalIndent m) = Some (map_tokens (map_tokens (\<lambda>v. [TString v])) m)"
proof -
  have "lexes (encodeMap 0 (encodeMap 1 appendString)) (map_tokens (map_tokens (\<lambda>v. [TString v]))) m"
    using assms
    by (intro lexes_encodeMap) (auto simp: validTranslations_def lexes_inner split: option.splits)
  from this[unfolded lexes_def, rule_format, of "[]"] show ?thesis
    by (simp add: MarshalIndent_def pre_def)
qed

subsection \<open>The value of a snapshot\<close>

lemma steps_append:
  "steps (a @ b) s = (case steps a s of None \<Rightarrow> None | Some s' \<Rightarrow> steps b s')"
  by (induction a arbitrary: s) (auto split: option.splits)

lemma steps_key:
  assumes "p = PKeyOrEnd \<or> p = PKey"
  shows "steps (TString k # Colon # ts) (p, FObject acc # st) = steps ts (PValue, FKey acc k # st)"
  using assms by auto

lemma steps_members:
  assumes "\<forall>(k, v) \<in> set kvs. parses st tv jv v" and "kvs \<noteq> []" and "p = PKeyOrEnd \<or> p = PKey"
  shows "steps (member_tokens tv kvs @ ts) (p, FObject acc # st)
           = steps ts (PAfter, FObject (rev (map (\<lambda>(k, v). (k, jv v)) kvs) @ acc) # st)"
  using assms
proof (induction tv kvs arbitrary: acc p rule: member_tokens.induct)
  case (1 tv)
  then show ?case by simp
next
  case (2 tv k v)
  then have v: "\<And>acc k ts. steps (tv v @ ts) (PValue, FKey acc k # st)
                   = steps ts (PAfter, FObject ((k, jv v) # acc) # st)"
    by (simp add: parses_def)
  have "steps (member_tokens tv [(k, v)] @ ts) (p, FObject acc # st)
          = steps (TString k # Colon # (tv v @ ts)) (p, FObject acc # st)"
    by simp
  also have "\<dots> = steps (tv v @ ts) (PValue, FKey acc k # st)"
    using "2.prems"(3) by (rule steps_key)
  finally show ?case by (simp add: v)
next
  case (3 tv k v kv kvs)
  then have v: "\<And>acc k ts. steps (tv v @ ts) (PValue, FKey acc k # st)
                   = steps ts (PAfter, FObject ((k, jv v) # acc) # st)"
    by (simp add: parses_def)
  have rest: "\<forall>(k, v) \<in> set (kv # kvs). parses st tv jv v" using "3.prems"(1) by simp
  have IH: "steps (member_tokens tv (kv # kvs) @ ts) (PKey, FObject acc' # st)
              = steps ts (PAfter, FObject (rev (map (\<lambda>(k, v). (k, jv v)) (kv # kvs)) @ acc') # st)"
    for acc'
    using "3.IH"[OF rest, of PKey acc'] by simp
  have "steps (member_tokens tv ((k, v) # kv # kvs) @ ts) (p, FObject acc # st)
          = steps (TString k # Colon # (tv v @ (Comma # (member_tokens tv (kv # kvs) @ ts))))
              (p, FObject acc # st)"
    by simp
  also have "\<dots> = steps (tv v @ (Comma # (member_tokens tv (kv # kvs) @ ts))) (PValue, FKey acc k # st)"
    using "3.prems"(3) by (rule steps_key)
  also have "\<dots> = steps (Comma # (member_tokens tv (kv # kvs) @ ts))
                      (PAfter, FObject ((k, jv v) # acc) # st)"
    by (rule v)
  also have "\<dots> = steps (member_tokens tv (kv # kvs) @ ts) (PKey, FObject ((k, jv v) # acc) # st)"
    by simp
  also have "\<dots> = steps ts (PAfter,
        FObject (rev (map (\<lambda>(k, v). (k, jv v)) (kv # kvs)) @ (k, jv v) # acc) # st)"
    by (rule IH)
  finally show ?case by simp
qed

lemma steps_map:
  assumes "case m of None \<Rightarrow> True | Some al \<Rightarrow> \<forall>(k, v) \<in> set al. parses st0 tv jv v"
    and "length st0 < maxNestingDepth"
  shows "steps (map_tokens tv m @ ts) (PValue, st0)
           = (case finish (map_json jv m) st0 of None \<Rightarrow> None | Some s \<Rightarrow> steps ts s)"
proof (cases m)
  case None
  then show ?thesis by (simp add: map_tokens_def map_json_def begin_value_def)
next
  case (Some al)
  let ?kvs = "sort_key fst al"
  have open_: "steps (map_tokens tv m @ ts) (PValue, st0)
                = steps (member_tokens tv ?kvs @ (RBrace # ts)) (PKeyOrEnd, FObject [] # st0)"
    using Some assms(2) by (simp add: map_tokens_def begin_value_def)
  show ?thesis
  proof (cases "?kvs = []")
    case True
    then show ?thesis using open_ Some by (simp add: map_json_def)
  next
    case False
    have kv: "\<forall>(k, v) \<in> set ?kvs. parses st0 tv jv v" using assms(1) Some by simp
    have "steps (member_tokens tv ?kvs @ (RBrace # ts)) (PKeyOrEnd, FObject [] # st0)
            = steps (RBrace # ts) (PAfter, FObject (rev (map (\<lambda>(k, v). (k, jv v)) ?kvs) @ []) # st0)"
      using kv False by (intro steps_members) simp_all
    then show ?thesis using open_ Some by (simp add: map_json_def)
  qed
qed

lemma parses_string: "parses st (\<lambda>v. [TString v]) JString v"
  by (simp add: parses_def begin_value_def)

lemma parses_inner:
  assumes "Suc (length st) < maxNestingDepth"
  shows "parses st (map_tokens (\<lambda>v. [TString v])) (map_json JString) im"
  unfolding parses_def
proof (intro allI)
  fix acc k ts
  have "steps (map_tokens (\<lambda>v. [TString v]) im @ ts) (PValue, FKey acc k # st)
          = (case finish (map_json JString im) (FKey acc k # st) of
               None \<Rightarrow> None | Some s \<Rightarrow> steps ts s)"
    using assms
    by (intro steps_map) (auto simp: parses_string split: option.splits)
  then show "steps (map_tokens (\<lambda>v. [TString v]) im @ ts) (PValue, FKey acc k # st)
               = steps ts (PAfter, FObject ((k, map_json JString im) # acc) # st)"
    by simp
qed

lemma steps_top:
  "steps (map_tokens (map_tokens (\<lambda>v. [TString v])) m) (PValue, [])
     = Some (PDone (map_json (map_json JString) m), [])"
proof -
  have "steps (map_tokens (map_tokens (\<lambda>v. [TString v])) m @ []) (PValue, [])
          = (case finish (map_json (map_json JString) m) [] of
               None \<Rightarrow> None | Some s \<Rightarrow> steps [] s)"
    by (intro steps_map) (auto simp: parses_inner maxNestingDepth_def split: option.splits)
  then show ?thesis by simp
qed

lemma parse_MarshalIndent:
  assumes "validTranslations m"
  shows "parse (MarshalIndent m) = Some (map_json (map_json JString) m)"
  by (simp add: parse_def lex_MarshalIndent[OF assms] steps_top)

subsection \<open>The cache decoded from a snapshot\<close>

lemma update_fresh:
  assumes "k \<notin> fst ` set al"
  shows "AList.update k v al = al @ [(k, v)]"
  using assms by (induction al) auto

lemma decodeMembers_distinct:
  assumes "\<forall>(k, v) \<in> set kvs. dec (jv v) = (None, f v)"
    and "distinct (map fst (al @ kvs))"
  shows "decodeMembers dec (map (\<lambda>(k, v). (k, jv v)) kvs) (None, al)
           = (None, al @ map (\<lambda>(k, v). (k, f v)) kvs)"
  using assms
proof (induction kvs arbitrary: al)
  case Nil
  then show ?case by simp
next
  case (Cons kv kvs)
  obtain k v where kv: "kv = (k, v)" by (cases kv)
  have d: "dec (jv v) = (None, f v)" using Cons.prems(1) kv by simp
  have fresh: "k \<notin> fst ` set al" using Cons.prems(2) kv by auto
  have dist: "distinct (map fst ((al @ [(k, f v)]) @ kvs))" using Cons.prems(2) kv by auto
  have rest: "\<forall>(k, v) \<in> set kvs. dec (jv v) = (None, f v)" using Cons.prems(1) by simp
  show ?case
    using Cons.IH[OF rest dist]
    by (simp add: kv d first_error_def update_fresh[OF fresh])
qed

lemma distinct_map_insort_key:
  "distinct (map f (insort_key f x ys)) = (f x \<notin> f ` set ys \<and> distinct (map f ys))"
  by (induction ys) (auto simp: set_insort_key)

lemma distinct_map_sort_key:
  "distinct (map f (sort_key f xs)) = distinct (map f xs)"
  by (induction xs) (auto simp: distinct_map_insort_key)

lemma map_of_sort_key:
  assumes "distinct (map fst al)"
  shows "map_of (sort_key fst al) = map_of al"
proof (rule map_of_inject_set[THEN iffD2])
  show "distinct (map fst (sort_key fst al))" using assms by (simp add: distinct_map_sort_key)
  show "distinct (map fst al)" by (rule assms)
  show "set (sort_key fst al) = set al" by simp
qed

lemma decodeMap_object:
  assumes "\<forall>(k, v) \<in> set al. dec (jv v) = (None, f v)" and "distinct (map fst al)"
    and that: "m0 = None \<or> m0 = Some []"
  shows "decodeMap dec (map_json jv (Some al)) m0 = (None, sorted_map f (Some al))"
proof -
  have d: "distinct (map fst ([] @ sort_key fst al))"
    using assms(2) by (simp add: distinct_map_sort_key)
  have vs: "\<forall>(k, v) \<in> set (sort_key fst al). dec (jv v) = (None, f v)" using assms(1) by simp
  have "decodeMembers dec (map (\<lambda>(k, v). (k, jv v)) (sort_key fst al)) (None, [])
          = (None, [] @ map (\<lambda>(k, v). (k, f v)) (sort_key fst al))"
    using vs d by (rule decodeMembers_distinct)
  then show ?thesis using that by (auto simp: map_json_def sorted_map_def)
qed

lemma decodeMap_inner:
  assumes "validInner im"
  shows "decodeMap decodeString (map_json JString im) None = (None, sorted_map (\<lambda>v. v) im)"
proof (cases im)
  case None
  then show ?thesis by (simp add: map_json_def sorted_map_def)
next
  case (Some al)
  have "distinct (map fst al)" using assms Some by (simp add: validInner_def)
  then show ?thesis unfolding Some by (intro decodeMap_object) simp_all
qed

lemma decodeMap_outer:
  assumes "validTranslations m"
  shows "decodeMap (\<lambda>x. decodeMap decodeString x None) (map_json (map_json JString) m) (Some [])
           = (None, sorted_map (sorted_map (\<lambda>v. v)) m)"
proof (cases m)
  case None
  then show ?thesis by (simp add: map_json_def sorted_map_def)
next
  case (Some al)
  have d: "distinct (map fst al)" using assms Some by (simp add: validTranslations_def)
  have v: "\<forall>(k, im) \<in> set al.
             decodeMap decodeString (map_json JString im) None = (None, sorted_map (\<lambda>v. v) im)"
    using assms Some by (auto simp: validTranslations_def decodeMap_inner)
  show ?thesis unfolding Some using v d by (intro decodeMap_object) simp_all
qed

lemma Unmarshal_MarshalIndent:
  assumes "validTranslations m"
  shows "Unmarshal (MarshalIndent m) (Some []) = (None, sorted_map (sorted_map (\<lambda>v. v)) m)"
  by (simp add: Unmarshal_def parse_MarshalIndent[OF assms] decodeMap_outer[OF assms])

lemma map_of_map_values:
  "map_of (map (\<lambda>(k, v). (k, f v)) xs) k = map_option f (map_of xs k)"
  by (induction xs) auto

lemma map_index_sorted_map:
  assumes "case m of None \<Rightarrow> True | Some al \<Rightarrow> distinct (map fst al)"
  shows "map_index (sorted_map f m) k = map_option f (map_index m k)"
proof (cases m)
  case None
  then show ?thesis by (simp add: map_index_def sorted_map_def)
next
  case (Some al)
  then have d: "distinct (map fst al)" using assms by simp
  have "map_of (map (\<lambda>(k, v). (k, f v)) (sort_key fst al)) k
          = map_option f (map_of (sort_key fst al) k)"
    by (rule map_of_map_values)
  then show ?thesis using Some by (simp add: map_index_def sorted_map_def map_of_sort_key[OF d])
qed

lemma cacheLookup_sorted:
  assumes "validTranslations m"
  shows "cacheLookup \<lparr>Translations = sorted_map (sorted_map (\<lambda>v. v)) m\<rparr> text lang
           = cacheLookup \<lparr>Translations = m\<rparr> text lang"
proof -
  have d: "case m of None \<Rightarrow> True | Some al \<Rightarrow> distinct (map fst al)"
    using assms by (auto simp: validTranslations_def split: option.splits)
  show ?thesis
  proof (cases "map_index m text")
    case None
    then show ?thesis by (simp add: cacheLookup_def map_index_sorted_map[OF d])
  next
    case (Some im)
    then have "validInner im"
      using assms by (auto simp: validTranslations_def map_index_def split: option.splits
                           dest!: map_of_SomeD)
    then have di: "case im of None \<Rightarrow> True | Some al \<Rightarrow> distinct (map fst al)"
      by (auto simp: validInner_def split: option.splits)
    show ?thesis
      using Some
      by (simp add: cacheLookup_def map_index_sorted_map[OF d] map_index_sorted_map[OF di]
            option.map_ident)
  qed
qed

subsection \<open>Persisting and loading\<close>

lemma cacheLookup_Translations:
  "cacheLookup c text lang = cacheLookup \<lparr>Translations = Translations c\<rparr> text lang"
  by (simp add: cacheLookup_def)

text \<open>
  Claim C7, as amended. For a cache whose source texts, language codes and
  translations are valid UTF-8, a successful \<^verbatim>\<open>saveCache\<close> to the snapshot file
  followed by \<^verbatim>\<open>NewGreeter\<close> gives a greeter, logs nothing, and every lookup in
  the loaded cache answers as in the cache that was saved.
\<close>

theorem C7_persistence_round_trip:
  assumes "validTranslations (Translations (cache g))"
    and "cacheFile g = ''translation_cache.json''"
    and "saveCache env g w = (None, w1)"
    and "getenv su ''GOOGLE_CLOUD_PROJECT_ID'' \<noteq> []"
    and "getenv su ''GOOGLE_APPLICATION_CREDENTIALS'' \<noteq> []"
    and "NewTranslationClient su = None"
  shows "\<exists>g'. NewGreeter su r w1 = (Inr g', w1)
          \<and> (\<forall>text lang. cacheLookup (cache g') text lang = cacheLookup (cache g) text lang)"
proof -
  let ?m = "Translations (cache g)"
  have f: "files w1 ''translation_cache.json'' = Some (MarshalIndent ?m)"
    using assms(2,3) by (auto simp: saveCache_def Let_def split: option.splits)
  have u: "Unmarshal (MarshalIndent ?m) (Some []) = (None, sorted_map (sorted_map (\<lambda>v. v)) ?m)"
    using assms(1) by (rule Unmarshal_MarshalIndent)
  have n: "NewGreeter su r w1 =
             (Inr \<lparr>recipient = r, language = ''en'',
                   cache = \<lparr>Translations = sorted_map (sorted_map (\<lambda>v. v)) ?m\<rparr>,
                   cacheFile = ''translation_cache.json'',
                   projectID = getenv su ''GOOGLE_CLOUD_PROJECT_ID'', stats = zeroStats\<rparr>, w1)"
    using assms(4-6) by (simp add: NewGreeter_def Let_def f u)
  show ?thesis
    unfolding n
    using cacheLookup_sorted[OF assms(1)] cacheLookup_Translations[of "cache g"]
    by simp
qed


lemma greetOnce_eq:
  "greetOnce r =
     (\<lparr>recipient = r, language = ''es'',
       cache = \<lparr>Translations = Some [(''Good morning, '' @ r @ ''!'',
                  Some [(''es'', [CHR 0xC2, CHR 0xA1] @ ''Good morning, '' @ r @ ''!!'')])]\<rparr>,
       cacheFile = ''translation_cache.json'', projectID = ''test-project'',
       stats = \<lparr>APICalls = 1, CharsSent = 15 + int (length r),
                 CostEstimate = addCost False (Fin 0) (15 + int (length r)), CacheHits = 0\<rparr>\<rparr>,
      \<lparr>files = [''translation_cache.json'' \<mapsto>
                 MarshalIndent (Some [(''Good morning, '' @ r @ ''!'',
                   Some [(''es'', [CHR 0xC2, CHR 0xA1] @ ''Good morning, '' @ r @ ''!!'')])])],
        logs = [Line ''Translating text to es''],
        calls = [\<lparr>Contents = [''Good morning, '' @ r @ ''!''], TargetLanguageCode = ''es'',
                  SourceLanguageCode = ''en'', MimeType = ''text/plain'',
                  Parent = ''projects/test-project''\<rparr>],
        writes = [(''translation_cache.json'',
                 MarshalIndent (Some [(''Good morning, '' @ r @ ''!'',
                   Some [(''es'', [CHR 0xC2, CHR 0xA1] @ ''Good morning, '' @ r @ ''!!'')])]))]\<rparr>)"
  by (simp add: greetOnce_def Greet_def translateGreeting_def Let_def test_defs saveCache_def
        countCall_def getTimeBasedGreeting_def)

text \<open>
  The claim C7 as stated fails for a text that is not valid UTF-8: the encoder
  writes \<open>U+FFFD\<close> for the byte \<open>0xFF\<close> of the recipient, so the loaded
  cache holds the translation under another source text and the lookup of the
  greeting that was cached finds nothing.
\<close>

lemma char_of_values:
  "char_of (239::nat) = CHR 0xEF" "char_of (191::nat) = CHR 0xBF" "char_of (189::nat) = CHR 0xBD"
  "char_of (194::nat) = CHR 0xC2" "char_of (161::nat) = CHR 0xA1"
  by (rule char_eqI, simp)+

lemma MarshalIndent_invalid:
  "MarshalIndent (Some [(''Good morning, '' @ [CHR 0xFF] @ ''!'',
                   Some [(''es'', [CHR 0xC2, CHR 0xA1] @ ''Good morning, '' @ [CHR 0xFF] @ ''!!'')])]) =
    [CHR ''{'', CHR 0x0A, CHR '' '', CHR '' '', CHR 0x22, CHR ''G'', CHR ''o'', CHR ''o'', CHR ''d'', CHR '' '', CHR ''m'', CHR ''o'',
     CHR ''r'', CHR ''n'', CHR ''i'', CHR ''n'', CHR ''g'', CHR '','', CHR '' '', CHR 0x5C, CHR ''u'', CHR ''f'', CHR ''f'', CHR ''f'',
     CHR ''d'', CHR ''!'', CHR 0x22, CHR '':'', CHR '' '', CHR ''{'', CHR 0x0A, CHR '' '', CHR '' '', CHR '' '', CHR '' '', CHR 0x22,
     CHR ''e'', CHR ''s'', CHR 0x22, CHR '':'', CHR '' '', CHR 0x22, CHR 0xC2, CHR 0xA1, CHR ''G'', CHR ''o'', CHR ''o'', CHR ''d'',
     CHR '' '', CHR ''m'', CHR ''o'', CHR ''r'', CHR ''n'', CHR ''i'', CHR ''n'', CHR ''g'', CHR '','', CHR '' '', CHR 0x5C, CHR ''u'',
     CHR ''f'', CHR ''f'', CHR ''f'', CHR ''d'', CHR ''!'', CHR ''!'', CHR 0x22, CHR 0x0A, CHR '' '', CHR '' '', CHR ''}'', CHR 0x0A,
     CHR ''}'']"
  by (simp add: MarshalIndent_def encodeMap_def newline_def appendString_def htmlSafe_def
        escapeByte_def hex_def Let_def numeral_2_eq_2 continuation_def)

lemma Unmarshal_invalid:
  "Unmarshal
    [CHR ''{'', CHR 0x0A, CHR '' '', CHR '' '', CHR 0x22, CHR ''G'', CHR ''o'', CHR ''o'', CHR ''d'', CHR '' '', CHR ''m'', CHR ''o'',
     CHR ''r'', CHR ''n'', CHR ''i'', CHR ''n'', CHR ''g'', CHR '','', CHR '' '', CHR 0x5C, CHR ''u'', CHR ''f'', CHR ''f'', CHR ''f'',
     CHR ''d'', CHR ''!'', CHR 0x22, CHR '':'', CHR '' '', CHR ''{'', CHR 0x0A, CHR '' '', CHR '' '', CHR '' '', CHR '' '', CHR 0x22,
     CHR ''e'', CHR ''s'', CHR 0x22, CHR '':'', CHR '' '', CHR 0x22, CHR 0xC2, CHR 0xA1, CHR ''G'', CHR ''o'', CHR ''o'', CHR ''d'',
     CHR '' '', CHR ''m'', CHR ''o'', CHR ''r'', CHR ''n'', CHR ''i'', CHR ''n'', CHR ''g'', CHR '','', CHR '' '', CHR 0x5C, CHR ''u'',
     CHR ''f'', CHR ''f'', CHR ''f'', CHR ''d'', CHR ''!'', CHR ''!'', CHR 0x22, CHR 0x0A, CHR '' '', CHR '' '', CHR ''}'', CHR 0x0A,
     CHR ''}'']
     (Some [])
   = (None, Some [(''Good morning, '' @ [CHR 0xEF, CHR 0xBF, CHR 0xBD] @ ''!'',
                   Some [(''es'', [CHR 0xC2, CHR 0xA1] @ ''Good morning, ''
                                   @ [CHR 0xEF, CHR 0xBF, CHR 0xBD] @ ''!!'')])])"
  by (simp add: Unmarshal_def parse_def next_token_def isSpace_def digit_def string_item_def
        unescape_def hexval_def AppendRune_def cons_token_def prepend_def begin_value_def
        maxNestingDepth_def first_error_def continuation_def Let_def RuneError_def char_of_values)

theorem C7_counterexample:
  "cacheLookup (cache (fst (greetOnce [CHR 0xFF]))) (''Good morning, '' @ [CHR 0xFF] @ ''!'') ''es''
     = Some ([CHR 0xC2, CHR 0xA1] @ ''Good morning, '' @ [CHR 0xFF] @ ''!!'')
   \<and> files (snd (greetOnce [CHR 0xFF])) ''translation_cache.json''
     = Some (MarshalIndent (Translations (cache (fst (greetOnce [CHR 0xFF])))))
   \<and> \<not> isl (fst (NewGreeter testSetup [CHR 0xFF] (snd (greetOnce [CHR 0xFF]))))
   \<and> cacheLookup (cache (projr (fst (NewGreeter testSetup [CHR 0xFF] (snd (greetOnce [CHR 0xFF]))))))
        (''Good morning, '' @ [CHR 0xFF] @ ''!'') ''es'' = None"
  by (simp add: greetOnce_eq NewGreeter_def testSetup_def Let_def
        MarshalIndent_invalid[simplified] Unmarshal_invalid[simplified]
        cacheLookup_def map_index_def)

text \<open>The theorem at the cache of \<^verbatim>\<open>TestCachePersistence\<close>, whose translation
  holds the two bytes of \<open>U+00A1\<close>.\<close>

theorem C7_persistence_round_trip_witness:
  "\<not> isl (fst (NewGreeter testSetup ''Test''
         (snd (saveCache (testEnv 8 False False False)
                 (fst (greetOnce ''Test'')) (snd (greetOnce ''Test''))))))
   \<and> cacheLookup (cache (projr (fst (NewGreeter testSetup ''Test''
         (snd (saveCache (testEnv 8 False False False)
                 (fst (greetOnce ''Test'')) (snd (greetOnce ''Test''))))))))
       ''Good morning, Test!'' ''es''
     = Some ([CHR 0xC2, CHR 0xA1] @ ''Good morning, Test!!'')"
proof -
  let ?g = "fst (greetOnce ''Test'')"
  let ?w = "snd (greetOnce ''Test'')"
  let ?env = "testEnv 8 False False False"
  have v: "validTranslations (Translations (cache ?g))"
    by (simp add: greetOnce_eq validTranslations_def validInner_def Let_def continuation_def
          RuneError_def)
  have f: "cacheFile ?g = ''translation_cache.json''" by (simp add: greetOnce_eq)
  have s: "saveCache ?env ?g ?w = (None, snd (saveCache ?env ?g ?w))"
    by (simp add: saveCache_def testEnv_def Let_def)
  have cfg: "getenv testSetup ''GOOGLE_CLOUD_PROJECT_ID'' \<noteq> []"
    "getenv testSetup ''GOOGLE_APPLICATION_CREDENTIALS'' \<noteq> []"
    "NewTranslationClient testSetup = None"
    by (simp_all add: testSetup_def)
  have l: "cacheLookup (cache ?g) ''Good morning, Test!'' ''es''
             = Some ([CHR 0xC2, CHR 0xA1] @ ''Good morning, Test!!'')"
    by (simp add: greetOnce_eq cacheLookup_def map_index_def)
  obtain g' where "NewGreeter testSetup ''Test'' (snd (saveCache ?env ?g ?w))
                     = (Inr g', snd (saveCache ?env ?g ?w))"
      and "\<forall>text lang. cacheLookup (cache g') text lang = cacheLookup (cache ?g) text lang"
    using C7_persistence_round_trip [OF v f s cfg, of "''Test''"] by blast
  then show ?thesis using l by simp
qed

end
